theory Spec2Isabelle
  imports Main "HOL-Library.Char_ord" "HOL-Library.List_Lexorder"
begin

section \<open>The workflow scanner of \<open>lib/workflow-scanner.ts\<close>\<close>

text \<open>
  The scanner walks the \<open>nodes\<close> of a parsed ComfyUI workflow and returns the model files,
  grouped in thirteen categories, and the custom node packages the workflow needs.
  The development follows the TypeScript source function by function. Strings are
  \<open>string\<close> with the order of \<open>Char_ord\<close> and \<open>List_Lexorder\<close>: characters compare by
  their code, lists lexicographically, a proper prefix first. This is the order of
  JavaScript's default \<open>Array.prototype.sort\<close> on strings (code unit by code unit), for
  strings whose code units are below 256.
\<close>

subsection \<open>Values of type \<open>any\<close>\<close>

text \<open>
  \<open>widgets_values\<close> is declared \<open>any[]\<close>; the workflow comes from \<open>JSON.parse\<close>, so an
  element is a JSON value. The scanner observes two things of a number: whether it is
  falsy, and what \<open>String\<close> prints for it. \<open>JNum z p\<close> is a number given by these two:
  \<open>z\<close> says that it is zero (\<open>0\<close> or \<open>-0\<close>, the falsy numbers of a JSON text), and \<open>p\<close>
  is the string that \<open>Number::toString\<close> gives for it, such as \<open>0.5\<close>, \<open>-12\<close> or
  \<open>1e+21\<close>. How a number is printed is left to JavaScript. \<open>undefined\<close> is not a JSON
  value: a missing field or an index out of range is \<open>None\<close>.
\<close>

datatype jsvalue =
  JNull
| JBool bool
| JNum bool string
| JStr string
| JArr "jsvalue list"
| JObj "(string \<times> jsvalue) list"

datatype js_error = TypeError

text \<open>
  A thrown error is the left summand. \<open>bind\<close> runs the rest after a step that returned;
  \<open>sequence_results\<close> is a loop over steps that may throw: the first error ends it.
\<close>

definition bind :: "'e + 'a \<Rightarrow> ('a \<Rightarrow> 'e + 'b) \<Rightarrow> 'e + 'b" where
  "bind r f = (case r of Inl e \<Rightarrow> Inl e | Inr x \<Rightarrow> f x)"

fun sequence_results :: "('e + 'a) list \<Rightarrow> 'e + 'a list" where
  "sequence_results [] = Inr []"
| "sequence_results (r # rs) =
     bind r (\<lambda>y. bind (sequence_results rs) (\<lambda>ys. Inr (y # ys)))"

text \<open>JavaScript's \<open>ToBoolean\<close>: what \<open>value && ...\<close>, \<open>!value\<close> and \<open>value || ...\<close> test.\<close>

fun truthy :: "jsvalue \<Rightarrow> bool" where
  "truthy JNull = False"
| "truthy (JBool b) = b"
| "truthy (JNum z p) = (\<not> z)"
| "truthy (JStr s) = (s \<noteq> [])"
| "truthy (JArr xs) = True"
| "truthy (JObj kvs) = True"

definition truthy_str :: "string option \<Rightarrow> bool" where
  "truthy_str v = (case v of None \<Rightarrow> False | Some s \<Rightarrow> s \<noteq> [])"

text \<open>
  \<open>String(value)\<close>. An array prints through \<open>Array.prototype.join\<close>, where \<open>null\<close> is
  the empty string. An object of a JSON text prints through \<open>Object.prototype.toString\<close>,
  unless it has a key \<open>toString\<close> of its own: the value under that key is not a
  function, \<open>valueOf\<close> returns no primitive, and the conversion throws a
  \<open>TypeError\<close>.
\<close>

fun join :: "string \<Rightarrow> string list \<Rightarrow> string" where
  "join sep [] = []"
| "join sep [x] = x"
| "join sep (x # y # ys) = x @ sep @ join sep (y # ys)"

fun String :: "jsvalue \<Rightarrow> js_error + string" where
  "String JNull = Inr ''null''"
| "String (JBool b) = Inr (if b then ''true'' else ''false'')"
| "String (JNum z p) = Inr p"
| "String (JStr s) = Inr s"
| "String (JArr xs) =
     bind (sequence_results (map (\<lambda>x. if x = JNull then Inr [] else String x) xs))
       (\<lambda>parts. Inr (join '','' parts))"
| "String (JObj kvs) =
     (if ''toString'' \<in> fst ` set kvs then Inl TypeError else Inr ''[object Object]'')"

subsection \<open>The types of \<open>lib/types.ts\<close>\<close>

record ModelEntry =
  directory :: "string option"
  name :: "string option"

record Properties =
  cnr_id :: "string option"
  ver :: "string option"
  models :: "ModelEntry list option"

record WorkflowNode =
  type :: "string option"
  widgets_values :: "jsvalue list option"
  properties :: "Properties option"

text \<open>
  \<open>nodes\<close> is declared \<open>WorkflowNode[]\<close> and optional. The parsed file may hold any JSON
  value there, and the scanner tests the field before it uses it, so the field is
  modelled as what \<open>JSON.parse\<close> can deliver: an array of nodes, or a value that is not
  an array.
\<close>

datatype nodes_field =
  NodesArray "WorkflowNode list"
| NodesNull
| NodesBool bool
| NodesNum int
| NodesStr string
| NodesObj "(string \<times> jsvalue) list"

record WorkflowJSON =
  nodes :: "nodes_field option"

record CustomNode =
  node :: string
  version :: string
  available :: "bool option"

record WorkflowModels =
  checkpoints :: "string list"
  vae :: "string list"
  loras :: "string list"
  upscale_models :: "string list"
  controlnet :: "string list"
  clip :: "string list"
  clip_vision :: "string list"
  text_encoders :: "string list"
  diffusion_models :: "string list"
  embedding :: "string list"
  style_models :: "string list"
  hypernetworks :: "string list"
  gligen :: "string list"

record ScanResult =
  models :: WorkflowModels
  custom_nodes :: "CustomNode list"
  required_models :: "string list option"

subsection \<open>Built-in containers\<close>

text \<open>
  \<open>new Set(xs)\<close> keeps the first occurrence of every element, in insertion order, and
  \<open>Array.from\<close> reads it back in that order.
\<close>

definition set_add :: "'a list \<Rightarrow> 'a \<Rightarrow> 'a list" where
  "set_add s x = (if x \<in> set s then s else s @ [x])"

definition new_Set :: "'a list \<Rightarrow> 'a list" where
  "new_Set xs = foldl set_add [] xs"

text \<open>
  \<open>new Map(entries)\<close> calls \<open>set\<close> for every entry in order: a new key is appended, a
  key already present keeps its place and takes the new value. \<open>values()\<close> iterates in
  insertion order of the keys.
\<close>

fun map_set :: "('k \<times> 'v) list \<Rightarrow> 'k \<Rightarrow> 'v \<Rightarrow> ('k \<times> 'v) list" where
  "map_set [] k v = [(k, v)]"
| "map_set ((k', v') # m) k v =
     (if k' = k then (k, v) # m else (k', v') # map_set m k v)"

definition new_Map :: "('k \<times> 'v) list \<Rightarrow> ('k \<times> 'v) list" where
  "new_Map entries = foldl (\<lambda>m (k, v). map_set m k v) [] entries"

definition map_values :: "('k \<times> 'v) list \<Rightarrow> 'v list" where
  "map_values m = map snd m"

text \<open>
  \<open>!workflow.nodes\<close>, and the receiver of \<open>workflow.nodes.filter(...)\<close>: only an array has
  a \<open>filter\<close> method, calling it on another value throws a \<open>TypeError\<close>.
\<close>

fun nodes_truthy :: "nodes_field \<Rightarrow> bool" where
  "nodes_truthy (NodesArray ns) = True"
| "nodes_truthy NodesNull = False"
| "nodes_truthy (NodesBool b) = b"
| "nodes_truthy (NodesNum n) = (n \<noteq> 0)"
| "nodes_truthy (NodesStr s) = (s \<noteq> [])"
| "nodes_truthy (NodesObj kvs) = True"

fun filter_receiver :: "nodes_field \<Rightarrow> js_error + WorkflowNode list" where
  "filter_receiver (NodesArray ns) = Inr ns"
| "filter_receiver v = Inl TypeError"

subsection \<open>The extraction functions\<close>

text \<open>\<open>node.widgets_values?.[widgetIndex]\<close>\<close>

definition widget_value :: "WorkflowNode \<Rightarrow> nat \<Rightarrow> jsvalue option" where
  "widget_value n i =
     (case widgets_values n of
        None \<Rightarrow> None
      | Some ws \<Rightarrow> if i < length ws then Some (ws ! i) else None)"

text \<open>\<open>value && value !== '' ? String(value) : null\<close>; \<open>None\<close> is the \<open>null\<close>.\<close>

definition widget_string :: "jsvalue option \<Rightarrow> js_error + string option" where
  "widget_string value =
     (case value of
        None \<Rightarrow> Inr None
      | Some v \<Rightarrow>
          if truthy v \<and> v \<noteq> JStr [] then bind (String v) (\<lambda>s. Inr (Some s))
          else Inr None)"

text \<open>\<open>.filter((value): value is string => value !== null)\<close>\<close>

definition non_null :: "'a option list \<Rightarrow> 'a list" where
  "non_null xs = List.map_filter (\<lambda>v. v) xs"

text \<open>
  \<open>extractModels\<close>: the guard \<open>if (!workflow.nodes) return []\<close>, then the pipeline
  \<open>filter\<close>, \<open>map\<close>, \<open>filter\<close> over the nodes, \<open>new Set\<close>, \<open>Array.from\<close> and \<open>sort\<close>.
  The callback of \<open>map\<close> throws when \<open>String\<close> does.
\<close>

definition extractModels_nodes ::
  "WorkflowNode list \<Rightarrow> string \<Rightarrow> nat \<Rightarrow> js_error + string list" where
  "extractModels_nodes ns nodeType widgetIndex =
     bind
       (sequence_results
          (map (\<lambda>n. widget_string (widget_value n widgetIndex))
             (filter (\<lambda>n. type n = Some nodeType) ns)))
       (\<lambda>mapped. let models = non_null mapped in Inr (sort (new_Set models)))"

definition extractModels :: "WorkflowJSON \<Rightarrow> string \<Rightarrow> nat \<Rightarrow> js_error + string list" where
  "extractModels workflow nodeType widgetIndex =
     (case nodes workflow of
        None \<Rightarrow> Inr []
      | Some nv \<Rightarrow>
          if \<not> nodes_truthy nv then Inr []
          else bind (filter_receiver nv) (\<lambda>ns.
            extractModels_nodes ns nodeType widgetIndex))"

text \<open>
  \<open>extractModelsFromProperties\<close>: the two nested \<open>forEach\<close> loops push onto the local
  array \<open>models\<close>; each is a left fold that returns the array.
\<close>

definition push_names :: "string list \<Rightarrow> ModelEntry list \<Rightarrow> string list" where
  "push_names acc ms =
     foldl (\<lambda>acc model.
         case name model of
           None \<Rightarrow> acc
         | Some s \<Rightarrow> if s \<noteq> [] then acc @ [s] else acc)
       acc ms"

definition extractModelsFromProperties_nodes ::
  "WorkflowNode list \<Rightarrow> string \<Rightarrow> string \<Rightarrow> string list" where
  "extractModelsFromProperties_nodes ns nodeType dir =
     (let models =
        foldl (\<lambda>acc n.
            case properties n of
              None \<Rightarrow> acc
            | Some p \<Rightarrow>
                (case Properties.models p of
                   None \<Rightarrow> acc
                 | Some ms \<Rightarrow>
                     push_names acc
                       (filter (\<lambda>model. directory model = Some dir
                                  \<and> truthy_str (name model)) ms)))
          [] (filter (\<lambda>n. type n = Some nodeType) ns)
      in sort (new_Set models))"

definition extractModelsFromProperties ::
  "WorkflowJSON \<Rightarrow> string \<Rightarrow> string \<Rightarrow> js_error + string list" where
  "extractModelsFromProperties workflow nodeType dir =
     (case nodes workflow of
        None \<Rightarrow> Inr []
      | Some nv \<Rightarrow>
          if \<not> nodes_truthy nv then Inr []
          else bind (filter_receiver nv) (\<lambda>ns.
            Inr (extractModelsFromProperties_nodes ns nodeType dir)))"

text \<open>\<open>mergeArrays\<close>: \<open>flat\<close>, the filter on the empty string, \<open>new Set\<close> and \<open>sort\<close>.\<close>

definition mergeArrays :: "string list list \<Rightarrow> string list" where
  "mergeArrays arrays = sort (new_Set (filter (\<lambda>item. item \<noteq> []) (concat arrays)))"

text \<open>
  \<open>extractCustomNodes\<close>. \<open>node.properties?.cnr_id\<close> is \<open>undefined\<close> without \<open>properties\<close>.
  The filter lets a node pass when that value is truthy and differs from
  \<open>'comfy-core'\<close>; the projection reads \<open>properties!.cnr_id!\<close> and
  \<open>properties!.ver || 'latest'\<close>, and is applied to nodes that passed the filter only.
\<close>

definition properties_cnr_id :: "WorkflowNode \<Rightarrow> string option" where
  "properties_cnr_id n = (case properties n of None \<Rightarrow> None | Some p \<Rightarrow> cnr_id p)"

definition is_custom :: "WorkflowNode \<Rightarrow> bool" where
  "is_custom n =
     (truthy_str (properties_cnr_id n) \<and> properties_cnr_id n \<noteq> Some ''comfy-core'')"

definition properties_ver :: "WorkflowNode \<Rightarrow> string option" where
  "properties_ver n = (case properties n of None \<Rightarrow> None | Some p \<Rightarrow> ver p)"

definition ver_or_latest :: "string option \<Rightarrow> string" where
  "ver_or_latest v =
     (case v of None \<Rightarrow> ''latest'' | Some s \<Rightarrow> if s \<noteq> [] then s else ''latest'')"

definition to_custom :: "WorkflowNode \<Rightarrow> CustomNode" where
  "to_custom n =
     \<lparr> node = the (properties_cnr_id n),
       version = ver_or_latest (properties_ver n),
       available = None \<rparr>"

definition extractCustomNodes_nodes :: "WorkflowNode list \<Rightarrow> CustomNode list" where
  "extractCustomNodes_nodes ns =
     (let customNodes = map to_custom (filter is_custom ns);
          uniqueNodes = map_values (new_Map (map (\<lambda>item. (node item, item)) customNodes))
      in uniqueNodes)"

definition extractCustomNodes :: "WorkflowJSON \<Rightarrow> js_error + CustomNode list" where
  "extractCustomNodes workflow =
     (case nodes workflow of
        None \<Rightarrow> Inr []
      | Some nv \<Rightarrow>
          if \<not> nodes_truthy nv then Inr []
          else bind (filter_receiver nv) (\<lambda>ns. Inr (extractCustomNodes_nodes ns)))"

definition scanWorkflow :: "WorkflowJSON \<Rightarrow> js_error + ScanResult" where
  "scanWorkflow workflowData =
     bind (extractCustomNodes workflowData) (\<lambda>customNodes.
     bind (extractModels workflowData ''VAELoader'' 0) (\<lambda>vaeFromWidgets.
     bind (extractModelsFromProperties workflowData ''VAELoader'' ''vae'') (\<lambda>vaeFromProps.
     let vae = mergeArrays [vaeFromWidgets, vaeFromProps] in
     bind (extractModels workflowData ''CheckpointLoaderSimple'' 0) (\<lambda>checkpointSimple.
     bind (extractModels workflowData ''CheckpointLoader'' 0) (\<lambda>checkpointLoader.
     bind (extractModels workflowData ''LoadCheckpoint'' 0) (\<lambda>loadCheckpoint.
     let checkpoints = mergeArrays [checkpointSimple, checkpointLoader, loadCheckpoint] in
     bind (extractModels workflowData ''LoraLoader'' 0) (\<lambda>loraLoader.
     bind (extractModels workflowData ''LoraLoaderModelOnly'' 0) (\<lambda>loraModelOnly.
     let loras = mergeArrays [loraLoader, loraModelOnly] in
     bind (extractModels workflowData ''UpscaleModelLoader'' 0) (\<lambda>upscale_models.
     bind (extractModels workflowData ''ControlNetLoader'' 0) (\<lambda>controlnet.
     bind (extractModels workflowData ''CLIPLoader'' 0) (\<lambda>clipLoader.
     bind (extractModels workflowData ''DualCLIPLoader'' 0) (\<lambda>dualClipLoader.
     let clip = mergeArrays [clipLoader, dualClipLoader] in
     bind (extractModels workflowData ''CLIPVisionLoader'' 0) (\<lambda>clip_vision.
     bind (extractModelsFromProperties workflowData ''DualCLIPLoader'' ''text_encoders'')
       (\<lambda>text_encoders.
     bind (extractModels workflowData ''UnetLoader'' 0) (\<lambda>unetLoader.
     bind (extractModels workflowData ''UNETLoader'' 0) (\<lambda>unetLoaderCaps.
     bind (extractModels workflowData ''GGUFLoader'' 0) (\<lambda>ggufLoader.
     bind (extractModels workflowData ''DiffusionModelLoader'' 0) (\<lambda>diffusionLoader.
     let diffusion_models =
       mergeArrays [unetLoader, unetLoaderCaps, ggufLoader, diffusionLoader] in
     bind (extractModels workflowData ''EmbeddingLoader'' 0) (\<lambda>embedding.
     bind (extractModels workflowData ''StyleModelLoader'' 0) (\<lambda>style_models.
     bind (extractModels workflowData ''HypernetworkLoader'' 0) (\<lambda>hypernetworks.
     bind (extractModels workflowData ''GLIGENLoader'' 0) (\<lambda>gligen.
     Inr \<lparr> models =
             \<lparr> checkpoints = checkpoints, vae = vae, loras = loras,
               upscale_models = upscale_models, controlnet = controlnet, clip = clip,
               clip_vision = clip_vision, text_encoders = text_encoders,
               diffusion_models = diffusion_models, embedding = embedding,
               style_models = style_models, hypernetworks = hypernetworks,
               gligen = gligen \<rparr>,
           custom_nodes = customNodes,
           required_models = None \<rparr>))))))))))))))))))))))"

text \<open>The manifest with every category and the custom node list empty.\<close>

definition empty_manifest :: ScanResult where
  "empty_manifest =
     \<lparr> models =
         \<lparr> checkpoints = [], vae = [], loras = [], upscale_models = [], controlnet = [],
           clip = [], clip_vision = [], text_encoders = [], diffusion_models = [],
           embedding = [], style_models = [], hypernetworks = [], gligen = [] \<rparr>,
       custom_nodes = [],
       required_models = None \<rparr>"

subsection \<open>Predicates and example workflows used in the statements\<close>

text \<open>
  \<open>no_nodes\<close>: the \<open>nodes\<close> field is absent or falsy, the case of the guard
  \<open>if (!workflow.nodes) return []\<close>. \<open>is_array\<close>: the field holds an array.
\<close>

definition no_nodes :: "nodes_field option \<Rightarrow> bool" where
  "no_nodes v = (case v of None \<Rightarrow> True | Some nv \<Rightarrow> \<not> nodes_truthy nv)"

definition is_array :: "nodes_field option \<Rightarrow> bool" where
  "is_array v = (case v of Some (NodesArray ns) \<Rightarrow> True | _ \<Rightarrow> False)"

text \<open>A category is sorted ascending and has no duplicate; all thirteen are.\<close>

definition sorted_unique :: "string list \<Rightarrow> bool" where
  "sorted_unique xs = (sorted xs \<and> distinct xs)"

definition all_sorted_unique :: "WorkflowModels \<Rightarrow> bool" where
  "all_sorted_unique m =
     (sorted_unique (checkpoints m) \<and> sorted_unique (vae m) \<and> sorted_unique (loras m)
      \<and> sorted_unique (upscale_models m) \<and> sorted_unique (controlnet m)
      \<and> sorted_unique (clip m) \<and> sorted_unique (clip_vision m)
      \<and> sorted_unique (text_encoders m) \<and> sorted_unique (diffusion_models m)
      \<and> sorted_unique (embedding m) \<and> sorted_unique (style_models m)
      \<and> sorted_unique (hypernetworks m) \<and> sorted_unique (gligen m))"

text \<open>A node with a type and widget values only, and a node with a package only.\<close>

definition loader :: "string \<Rightarrow> jsvalue list \<Rightarrow> WorkflowNode" where
  "loader t ws = \<lparr> type = Some t, widgets_values = Some ws, properties = None \<rparr>"

definition package_node :: "string \<Rightarrow> string option \<Rightarrow> WorkflowNode" where
  "package_node pid v =
     \<lparr> type = None, widgets_values = None,
       properties = Some \<lparr> cnr_id = Some pid, ver = v, models = None \<rparr> \<rparr>"

text \<open>The end-to-end scenario, with one checkpoint named twice and a core node added.\<close>

definition scenario :: WorkflowJSON where
  "scenario =
     \<lparr> nodes = Some (NodesArray
         [loader ''CheckpointLoaderSimple'' [JStr ''flux1-dev.safetensors''],
          loader ''VAELoader'' [JStr ''ae.safetensors''],
          loader ''LoraLoader'' [JStr ''flux-realism-lora.safetensors''],
          loader ''CheckpointLoader'' [JStr ''base.safetensors''],
          loader ''LoadCheckpoint'' [JStr ''flux1-dev.safetensors''],
          package_node ''comfy-core'' (Some ''0.3.10''),
          package_node ''custom-controlnet-node'' (Some ''1.2.0'')]) \<rparr>"

definition scenario_result :: ScanResult where
  "scenario_result =
     \<lparr> models =
         \<lparr> checkpoints = [''base.safetensors'', ''flux1-dev.safetensors''],
           vae = [''ae.safetensors''], loras = [''flux-realism-lora.safetensors''],
           upscale_models = [], controlnet = [], clip = [], clip_vision = [],
           text_encoders = [], diffusion_models = [], embedding = [], style_models = [],
           hypernetworks = [], gligen = [] \<rparr>,
       custom_nodes =
         [\<lparr> node = ''custom-controlnet-node'', version = ''1.2.0'', available = None \<rparr>],
       required_models = None \<rparr>"

text \<open>Two nodes of the package \<open>pack-x\<close>, with versions 1.0 and 2.0 in that order.\<close>

definition two_versions :: WorkflowJSON where
  "two_versions =
     \<lparr> nodes = Some (NodesArray
         [package_node ''pack-x'' (Some ''1.0''), package_node ''pack-x'' (Some ''2.0'')]) \<rparr>"

text \<open>
  Three package nodes: \<open>pack-x\<close> 1.0, \<open>pack-y\<close> without a version, \<open>pack-x\<close> 2.0; and
  what the scan returns for them.
\<close>

definition three_packages :: "WorkflowNode list" where
  "three_packages =
     [package_node ''pack-x'' (Some ''1.0''), package_node ''pack-y'' None,
      package_node ''pack-x'' (Some ''2.0'')]"

definition three_packages_result :: ScanResult where
  "three_packages_result =
     empty_manifest
       \<lparr> custom_nodes :=
           [\<lparr> node = ''pack-x'', version = ''2.0'', available = None \<rparr>,
            \<lparr> node = ''pack-y'', version = ''latest'', available = None \<rparr>] \<rparr>"

text \<open>
  \<open>pack-y\<close> with version 3.1, then \<open>pack-y\<close> with the empty string as version, then
  another package.
\<close>

definition empty_version_pre :: "WorkflowNode list" where
  "empty_version_pre = [package_node ''pack-y'' (Some ''3.1'')]"

definition empty_version_post :: "WorkflowNode list" where
  "empty_version_post = [package_node ''pack-z'' (Some ''0.1'')]"

definition empty_version_result :: ScanResult where
  "empty_version_result =
     empty_manifest
       \<lparr> custom_nodes :=
           [\<lparr> node = ''pack-y'', version = ''latest'', available = None \<rparr>,
            \<lparr> node = ''pack-z'', version = ''0.1'', available = None \<rparr>] \<rparr>"

text \<open>
  The category assembly table: for each of the thirteen categories, the field of the
  manifest, the node types whose widget value at index 0 is a source, the node type
  and the directory of the \<open>properties.models\<close> source, and whether the category is
  put together by \<open>mergeArrays\<close>.
\<close>

datatype category =
  Checkpoints | Vae | Loras | Upscale_models | Controlnet | Clip | Clip_vision
| Text_encoders | Diffusion_models | Embedding | Style_models | Hypernetworks | Gligen

fun category_of :: "category \<Rightarrow> WorkflowModels \<Rightarrow> string list" where
  "category_of Checkpoints m = checkpoints m"
| "category_of Vae m = vae m"
| "category_of Loras m = loras m"
| "category_of Upscale_models m = upscale_models m"
| "category_of Controlnet m = controlnet m"
| "category_of Clip m = clip m"
| "category_of Clip_vision m = clip_vision m"
| "category_of Text_encoders m = text_encoders m"
| "category_of Diffusion_models m = diffusion_models m"
| "category_of Embedding m = embedding m"
| "category_of Style_models m = style_models m"
| "category_of Hypernetworks m = hypernetworks m"
| "category_of Gligen m = gligen m"

fun positional_types :: "category \<Rightarrow> string list" where
  "positional_types Checkpoints =
     [''CheckpointLoaderSimple'', ''CheckpointLoader'', ''LoadCheckpoint'']"
| "positional_types Vae = [''VAELoader'']"
| "positional_types Loras = [''LoraLoader'', ''LoraLoaderModelOnly'']"
| "positional_types Upscale_models = [''UpscaleModelLoader'']"
| "positional_types Controlnet = [''ControlNetLoader'']"
| "positional_types Clip = [''CLIPLoader'', ''DualCLIPLoader'']"
| "positional_types Clip_vision = [''CLIPVisionLoader'']"
| "positional_types Text_encoders = []"
| "positional_types Diffusion_models =
     [''UnetLoader'', ''UNETLoader'', ''GGUFLoader'', ''DiffusionModelLoader'']"
| "positional_types Embedding = [''EmbeddingLoader'']"
| "positional_types Style_models = [''StyleModelLoader'']"
| "positional_types Hypernetworks = [''HypernetworkLoader'']"
| "positional_types Gligen = [''GLIGENLoader'']"

fun property_source :: "category \<Rightarrow> (string \<times> string) list" where
  "property_source Vae = [(''VAELoader'', ''vae'')]"
| "property_source Text_encoders = [(''DualCLIPLoader'', ''text_encoders'')]"
| "property_source c = []"

fun merged :: "category \<Rightarrow> bool" where
  "merged Checkpoints = True"
| "merged Vae = True"
| "merged Loras = True"
| "merged Clip = True"
| "merged Diffusion_models = True"
| "merged c = False"

text \<open>
  The inclusion rule, value by value: a widget value is included
  unless it is \<open>null\<close>, \<open>false\<close>, the number zero or the empty string. A category that
  \<open>mergeArrays\<close> puts together keeps no empty string.
\<close>

fun included :: "jsvalue \<Rightarrow> bool" where
  "included JNull = False"
| "included (JBool b) = b"
| "included (JNum z p) = (\<not> z)"
| "included (JStr s) = (s \<noteq> [])"
| "included (JArr xs) = True"
| "included (JObj kvs) = True"

definition kept :: "category \<Rightarrow> string \<Rightarrow> bool" where
  "kept c s = (if merged c then s \<noteq> [] else True)"

text \<open>
  The two encodings. \<open>positional_strings\<close>: what \<open>String\<close> prints for the included
  values that the nodes whose type is one of the aliases hold at index 0 (\<open>printed\<close> is
  that string, when \<open>String\<close> returns one). \<open>model_names\<close>: the names present in the
  entries of \<open>properties.models\<close> with the given directory, over the nodes of the given
  type.
\<close>

definition printed :: "jsvalue \<Rightarrow> string option" where
  "printed v = (case String v of Inl e \<Rightarrow> None | Inr s \<Rightarrow> Some s)"

definition positional_strings :: "WorkflowNode list \<Rightarrow> string list \<Rightarrow> string list" where
  "positional_strings ns aliases =
     List.map_filter
       (\<lambda>n. case widget_value n 0 of
              None \<Rightarrow> None
            | Some v \<Rightarrow> if included v then printed v else None)
       (filter (\<lambda>n. type n \<in> Some ` set aliases) ns)"

definition model_names :: "WorkflowNode list \<Rightarrow> string \<Rightarrow> string \<Rightarrow> string list" where
  "model_names ns ty dir =
     concat (map
       (\<lambda>n. case properties n of
              None \<Rightarrow> []
            | Some p \<Rightarrow>
                (case Properties.models p of
                   None \<Rightarrow> []
                 | Some ms \<Rightarrow>
                     List.map_filter
                       (\<lambda>m. if directory m = Some dir then name m else None) ms))
       (filter (\<lambda>n. type n = Some ty) ns))"

text \<open>Two checkpoint loaders under different type names.\<close>

definition alias_example :: "WorkflowNode list" where
  "alias_example =
     [loader ''CheckpointLoaderSimple'' [JStr ''a.safetensors''],
      loader ''LoadCheckpoint'' [JStr ''b.safetensors'']]"

definition alias_result :: ScanResult where
  "alias_result =
     empty_manifest
       \<lparr> models := (models empty_manifest)
           \<lparr> checkpoints := [''a.safetensors'', ''b.safetensors''] \<rparr> \<rparr>"

text \<open>A VAE loader with a widget value, another with an entry of \<open>properties.models\<close>.\<close>

definition dual_example :: "WorkflowNode list" where
  "dual_example =
     [loader ''VAELoader'' [JStr ''v1.safetensors''],
      \<lparr> type = Some ''VAELoader'', widgets_values = None,
        properties = Some \<lparr> cnr_id = None, ver = None,
          models = Some [\<lparr> directory = Some ''vae'', name = Some ''v2.safetensors'' \<rparr>] \<rparr> \<rparr>]"

definition dual_result :: ScanResult where
  "dual_result =
     empty_manifest
       \<lparr> models := (models empty_manifest)
           \<lparr> vae := [''v1.safetensors'', ''v2.safetensors''] \<rparr> \<rparr>"

text \<open>A VAE loader whose one entry of \<open>properties.models\<close> has the empty name.\<close>

definition empty_name_example :: WorkflowNode where
  "empty_name_example =
     \<lparr> type = Some ''VAELoader'', widgets_values = None,
       properties = Some \<lparr> cnr_id = None, ver = None,
         models = Some [\<lparr> directory = Some ''vae'', name = Some [] \<rparr>] \<rparr> \<rparr>"

text \<open>
  Widget values of every kind. \<open>zero\<close> is the number 0 and \<open>own_toString\<close> is the
  object \<open>{"toString": null}\<close>.
\<close>

definition zero :: jsvalue where
  "zero = JNum True ''0''"

definition own_toString :: jsvalue where
  "own_toString = JObj [(''toString'', JNull)]"

definition falsy_widgets :: "WorkflowNode list" where
  "falsy_widgets =
     [loader ''UpscaleModelLoader'' [zero], loader ''UpscaleModelLoader'' [JBool False]]"

definition mixed_widgets :: "WorkflowNode list" where
  "mixed_widgets =
     [loader ''UpscaleModelLoader'' [zero], loader ''UpscaleModelLoader'' [JStr ''x.pth''],
      loader ''UpscaleModelLoader'' [JBool True],
      loader ''UpscaleModelLoader'' [JNum False ''-12''],
      loader ''UpscaleModelLoader'' [JNum False ''1e+21''],
      loader ''UpscaleModelLoader'' [JStr []], loader ''UpscaleModelLoader'' [JNull],
      loader ''UpscaleModelLoader'' [JArr []],
      loader ''UpscaleModelLoader'' [JArr [JStr ''a'', JNull, JNum False ''0.5'']],
      loader ''VAELoader'' [JStr ''ae.safetensors''], loader ''VAELoader'' [JArr []],
      loader ''VAELoader'' [JObj [(''name'', JStr ''ae'')]]]"

definition mixed_result :: ScanResult where
  "mixed_result =
     empty_manifest
       \<lparr> models := (models empty_manifest)
           \<lparr> vae := [''[object Object]'', ''ae.safetensors''],
             upscale_models := [[], ''-12'', ''1e+21'', ''a,,0.5'', ''true'', ''x.pth''] \<rparr> \<rparr>"

text \<open>What the two loops of \<open>extractModelsFromProperties\<close> push, in order.\<close>

definition property_names :: "WorkflowNode list \<Rightarrow> string \<Rightarrow> string \<Rightarrow> string list" where
  "property_names ns ty dir =
     concat (map
       (\<lambda>n. case properties n of
              None \<Rightarrow> []
            | Some p \<Rightarrow>
                (case Properties.models p of
                   None \<Rightarrow> []
                 | Some ms \<Rightarrow>
                     List.map_filter
                       (\<lambda>m. if directory m = Some dir \<and> truthy_str (name m) then name m
                            else None) ms))
       (filter (\<lambda>n. type n = Some ty) ns))"

section \<open>The scanner on a store of arrays\<close>

text \<open>
  The functions above are values to values, so nothing in them can change their input.
  To state that the scanner does not, the same code is modelled a second time on an
  explicit store. The source assigns to no property of an object; the operations that
  write to memory that already exists are \<open>Array.prototype.push\<close> (in
  \<open>extractModelsFromProperties\<close>) and \<open>Array.prototype.sort\<close> (at the end of
  \<open>extractModels\<close>, \<open>extractModelsFromProperties\<close> and \<open>mergeArrays\<close>), both on arrays.
  The store therefore holds the arrays, by address: those of the input (the \<open>nodes\<close>
  array, every \<open>widgets_values\<close> array, every \<open>properties.models\<close> array) and those
  the scanner allocates. Objects are values that refer to their arrays by address.
  The workflow is as \<open>WorkflowJSON\<close> declares it: \<open>nodes\<close> is absent or an array.
\<close>

type_synonym addr = nat

record HProperties =
  h_cnr_id :: "string option"
  h_ver :: "string option"
  h_models :: "addr option"

record HNode =
  h_type :: "string option"
  h_widgets_values :: "addr option"
  h_properties :: "HProperties option"

record HWorkflow =
  h_nodes :: "addr option"

text \<open>
  What an array can hold: a node, a widget value, an entry of \<open>properties.models\<close>, a
  string, \<open>null\<close>, a custom node item, a pair \<open>[item.node, item]\<close>, a reference to an
  array.
\<close>

datatype elem =
  ENode HNode
| EValue jsvalue
| EModel ModelEntry
| EStr string
| ENull
| ECustom CustomNode
| EEntry string CustomNode
| EArr addr

type_synonym store = "elem list list"

definition load :: "store \<Rightarrow> addr \<Rightarrow> elem list" where
  "load s a = (if a < length s then s ! a else [])"

definition store_at :: "addr \<Rightarrow> elem list \<Rightarrow> store \<Rightarrow> store" where
  "store_at a xs s = s[a := xs]"

text \<open>A new array takes the next free address.\<close>

definition alloc :: "elem list \<Rightarrow> store \<Rightarrow> addr \<times> store" where
  "alloc xs s = (length s, s @ [xs])"

text \<open>
  A call returns a value or throws, and leaves a store. \<open>returned\<close> is a call that
  cannot throw; \<open>h_bind\<close> runs the rest of a function body after a call that returned.
\<close>

definition returned :: "'a \<times> store \<Rightarrow> (js_error + 'a) \<times> store" where
  "returned r = (case r of (x, s) \<Rightarrow> (Inr x, s))"

definition h_bind ::
  "(js_error + 'a) \<times> store \<Rightarrow> ('a \<Rightarrow> store \<Rightarrow> (js_error + 'b) \<times> store)
     \<Rightarrow> (js_error + 'b) \<times> store" where
  "h_bind m f = (case m of (Inl e, s) \<Rightarrow> (Inl e, s) | (Inr x, s) \<Rightarrow> f x s)"

text \<open>
  \<open>filter\<close>, \<open>map\<close>, \<open>flat\<close> and \<open>Array.from(new Set(...))\<close> read their receiver and
  allocate the result. Their callbacks in the source only read, so they are functions
  of the store and the element. The callback of \<open>map\<close> may throw: this ends \<open>map\<close>,
  nothing refers to the array it was building, and the store is as before.
\<close>

definition array_filter :: "(store \<Rightarrow> elem \<Rightarrow> bool) \<Rightarrow> addr \<Rightarrow> store \<Rightarrow> addr \<times> store" where
  "array_filter p a s = alloc (filter (p s) (load s a)) s"

definition array_map ::
  "(store \<Rightarrow> elem \<Rightarrow> js_error + elem) \<Rightarrow> addr \<Rightarrow> store \<Rightarrow> (js_error + addr) \<times> store" where
  "array_map f a s =
     (case sequence_results (map (f s) (load s a)) of
        Inl e \<Rightarrow> (Inl e, s)
      | Inr ys \<Rightarrow> returned (alloc ys s))"

definition array_from_set :: "addr \<Rightarrow> store \<Rightarrow> addr \<times> store" where
  "array_from_set a s = alloc (new_Set (load s a)) s"

definition array_flat :: "addr \<Rightarrow> store \<Rightarrow> addr \<times> store" where
  "array_flat a s =
     alloc (concat (map (\<lambda>e. case e of EArr b \<Rightarrow> load s b | _ \<Rightarrow> [e]) (load s a))) s"

text \<open>
  \<open>push\<close> and \<open>sort\<close> write to the array they are called on; \<open>sort\<close> returns it. The
  scanner sorts arrays of strings only; \<open>elem_string\<close> is the string an element is
  compared by.
\<close>

definition array_push :: "addr \<Rightarrow> elem \<Rightarrow> store \<Rightarrow> store" where
  "array_push a x s = store_at a (load s a @ [x]) s"

definition elem_string :: "elem \<Rightarrow> string" where
  "elem_string e =
     (case e of
        EStr x \<Rightarrow> x
      | EValue v \<Rightarrow> (case String v of Inl err \<Rightarrow> [] | Inr x \<Rightarrow> x)
      | ENull \<Rightarrow> ''null''
      | _ \<Rightarrow> ''[object Object]'')"

definition array_sort :: "addr \<Rightarrow> store \<Rightarrow> addr \<times> store" where
  "array_sort a s = (a, store_at a (sort_key elem_string (load s a)) s)"

text \<open>
  \<open>forEach\<close> fixes the number of iterations when it starts and reads each element when
  it reaches it; its callback may change the store.
\<close>

fun forEach_loop :: "(elem \<Rightarrow> store \<Rightarrow> store) \<Rightarrow> addr \<Rightarrow> nat \<Rightarrow> nat \<Rightarrow> store \<Rightarrow> store" where
  "forEach_loop cb a i 0 s = s"
| "forEach_loop cb a i (Suc k) s =
     (if i < length (load s a) then forEach_loop cb a (Suc i) k (cb (load s a ! i) s)
      else forEach_loop cb a (Suc i) k s)"

definition array_forEach :: "(elem \<Rightarrow> store \<Rightarrow> store) \<Rightarrow> addr \<Rightarrow> store \<Rightarrow> store" where
  "array_forEach cb a s = forEach_loop cb a 0 (length (load s a)) s"

text \<open>Property reads on an element; a property that is not there reads as \<open>undefined\<close>.\<close>

definition elem_type :: "elem \<Rightarrow> string option" where
  "elem_type e = (case e of ENode n \<Rightarrow> h_type n | _ \<Rightarrow> None)"

definition elem_widget :: "store \<Rightarrow> elem \<Rightarrow> nat \<Rightarrow> jsvalue option" where
  "elem_widget s e i =
     (case e of
        ENode n \<Rightarrow>
          (case h_widgets_values n of
             None \<Rightarrow> None
           | Some wa \<Rightarrow>
               if i < length (load s wa)
               then (case load s wa ! i of EValue v \<Rightarrow> Some v | _ \<Rightarrow> None)
               else None)
      | _ \<Rightarrow> None)"

definition elem_models :: "elem \<Rightarrow> addr option" where
  "elem_models e =
     (case e of
        ENode n \<Rightarrow> (case h_properties n of None \<Rightarrow> None | Some p \<Rightarrow> h_models p)
      | _ \<Rightarrow> None)"

definition elem_directory :: "elem \<Rightarrow> string option" where
  "elem_directory e = (case e of EModel m \<Rightarrow> directory m | _ \<Rightarrow> None)"

definition elem_name :: "elem \<Rightarrow> string option" where
  "elem_name e = (case e of EModel m \<Rightarrow> name m | _ \<Rightarrow> None)"

definition elem_cnr_id :: "elem \<Rightarrow> string option" where
  "elem_cnr_id e =
     (case e of
        ENode n \<Rightarrow> (case h_properties n of None \<Rightarrow> None | Some p \<Rightarrow> h_cnr_id p)
      | _ \<Rightarrow> None)"

definition elem_ver :: "elem \<Rightarrow> string option" where
  "elem_ver e =
     (case e of
        ENode n \<Rightarrow> (case h_properties n of None \<Rightarrow> None | Some p \<Rightarrow> h_ver p)
      | _ \<Rightarrow> None)"

text \<open>\<open>extractModels\<close>; \<open>return []\<close> allocates an empty array.\<close>

definition string_or_null :: "string option \<Rightarrow> elem" where
  "string_or_null v = (case v of None \<Rightarrow> ENull | Some x \<Rightarrow> EStr x)"

definition h_extractModels ::
  "HWorkflow \<Rightarrow> string \<Rightarrow> nat \<Rightarrow> store \<Rightarrow> (js_error + addr) \<times> store" where
  "h_extractModels workflow nodeType widgetIndex s =
     (case h_nodes workflow of
        None \<Rightarrow> returned (alloc [] s)
      | Some a \<Rightarrow>
          let (matching, s1) = array_filter (\<lambda>s e. elem_type e = Some nodeType) a s in
          h_bind
            (array_map
               (\<lambda>s e. bind (widget_string (elem_widget s e widgetIndex))
                         (\<lambda>v. Inr (string_or_null v)))
               matching s1)
            (\<lambda>mapped s2.
               let (models, s3) = array_filter (\<lambda>s e. e \<noteq> ENull) mapped s2;
                   (unique, s4) = array_from_set models s3
               in returned (array_sort unique s4)))"

text \<open>
  \<open>extractModelsFromProperties\<close>. \<open>push_name\<close> is the inner callback
  \<open>model => { if (model.name) models.push(model.name) }\<close>, \<open>collect_names\<close> the outer one.
\<close>

definition push_name :: "addr \<Rightarrow> elem \<Rightarrow> store \<Rightarrow> store" where
  "push_name target m s =
     (case elem_name m of
        None \<Rightarrow> s
      | Some x \<Rightarrow> if x \<noteq> [] then array_push target (EStr x) s else s)"

definition collect_names :: "addr \<Rightarrow> string \<Rightarrow> elem \<Rightarrow> store \<Rightarrow> store" where
  "collect_names target dir n s =
     (case elem_models n of
        None \<Rightarrow> s
      | Some ma \<Rightarrow>
          let (wanted, s') =
                array_filter
                  (\<lambda>s m. elem_directory m = Some dir \<and> truthy_str (elem_name m)) ma s
          in array_forEach (push_name target) wanted s')"

definition h_extractModelsFromProperties ::
  "HWorkflow \<Rightarrow> string \<Rightarrow> string \<Rightarrow> store \<Rightarrow> addr \<times> store" where
  "h_extractModelsFromProperties workflow nodeType dir s =
     (case h_nodes workflow of
        None \<Rightarrow> alloc [] s
      | Some a \<Rightarrow>
          let (models, s1) = alloc [] s;
              (matching, s2) = array_filter (\<lambda>s e. elem_type e = Some nodeType) a s1;
              s3 = array_forEach (collect_names models dir) matching s2;
              (unique, s4) = array_from_set models s3
          in array_sort unique s4)"

text \<open>\<open>mergeArrays\<close>; the rest parameter \<open>...arrays\<close> is itself a new array.\<close>

definition h_mergeArrays :: "addr list \<Rightarrow> store \<Rightarrow> addr \<times> store" where
  "h_mergeArrays arrays s =
     (let (rest, s1) = alloc (map EArr arrays) s;
          (flat, s2) = array_flat rest s1;
          (merged, s3) = array_filter (\<lambda>s item. item \<noteq> EStr []) flat s2;
          (unique, s4) = array_from_set merged s3
      in array_sort unique s4)"

text \<open>
  \<open>extractCustomNodes\<close>: \<open>filter\<close>, \<open>map\<close> to the items, \<open>map\<close> to the pairs, and
  \<open>Array.from(new Map(pairs).values())\<close>.
\<close>

definition h_extractCustomNodes :: "HWorkflow \<Rightarrow> store \<Rightarrow> (js_error + addr) \<times> store" where
  "h_extractCustomNodes workflow s =
     (case h_nodes workflow of
        None \<Rightarrow> returned (alloc [] s)
      | Some a \<Rightarrow>
          let (custom, s1) =
                array_filter
                  (\<lambda>s e. truthy_str (elem_cnr_id e) \<and> elem_cnr_id e \<noteq> Some ''comfy-core'')
                  a s
          in
          h_bind
            (array_map
               (\<lambda>s e. Inr (ECustom \<lparr> node = the (elem_cnr_id e),
                                       version = ver_or_latest (elem_ver e),
                                       available = None \<rparr>))
               custom s1)
            (\<lambda>customNodes s2.
          h_bind
            (array_map
               (\<lambda>s e. Inr (case e of ECustom item \<Rightarrow> EEntry (node item) item | _ \<Rightarrow> e))
               customNodes s2)
            (\<lambda>entries s3.
          returned
            (alloc
               (map ECustom
                  (map_values (new_Map
                     (List.map_filter
                        (\<lambda>e. case e of EEntry k v \<Rightarrow> Some (k, v) | _ \<Rightarrow> None)
                        (load s3 entries)))))
               s3))))"

text \<open>The manifest object: its fourteen arrays, by address.\<close>

record HModels =
  hm_checkpoints :: addr
  hm_vae :: addr
  hm_loras :: addr
  hm_upscale_models :: addr
  hm_controlnet :: addr
  hm_clip :: addr
  hm_clip_vision :: addr
  hm_text_encoders :: addr
  hm_diffusion_models :: addr
  hm_embedding :: addr
  hm_style_models :: addr
  hm_hypernetworks :: addr
  hm_gligen :: addr

record HScanResult =
  hr_models :: HModels
  hr_custom_nodes :: addr

definition h_scanWorkflow :: "HWorkflow \<Rightarrow> store \<Rightarrow> (js_error + HScanResult) \<times> store" where
  "h_scanWorkflow workflowData s0 =
     h_bind (h_extractCustomNodes workflowData s0) (\<lambda>customNodes s.
     h_bind (h_extractModels workflowData ''VAELoader'' 0 s) (\<lambda>vaeFromWidgets s.
     h_bind (returned (h_extractModelsFromProperties workflowData ''VAELoader'' ''vae'' s))
       (\<lambda>vaeFromProps s.
     h_bind (returned (h_mergeArrays [vaeFromWidgets, vaeFromProps] s)) (\<lambda>vae s.
     h_bind (h_extractModels workflowData ''CheckpointLoaderSimple'' 0 s)
       (\<lambda>checkpointSimple s.
     h_bind (h_extractModels workflowData ''CheckpointLoader'' 0 s)
       (\<lambda>checkpointLoader s.
     h_bind (h_extractModels workflowData ''LoadCheckpoint'' 0 s) (\<lambda>loadCheckpoint s.
     h_bind (returned (h_mergeArrays [checkpointSimple, checkpointLoader, loadCheckpoint] s))
       (\<lambda>checkpoints s.
     h_bind (h_extractModels workflowData ''LoraLoader'' 0 s) (\<lambda>loraLoader s.
     h_bind (h_extractModels workflowData ''LoraLoaderModelOnly'' 0 s)
       (\<lambda>loraModelOnly s.
     h_bind (returned (h_mergeArrays [loraLoader, loraModelOnly] s)) (\<lambda>loras s.
     h_bind (h_extractModels workflowData ''UpscaleModelLoader'' 0 s)
       (\<lambda>upscale_models s.
     h_bind (h_extractModels workflowData ''ControlNetLoader'' 0 s) (\<lambda>controlnet s.
     h_bind (h_extractModels workflowData ''CLIPLoader'' 0 s) (\<lambda>clipLoader s.
     h_bind (h_extractModels workflowData ''DualCLIPLoader'' 0 s) (\<lambda>dualClipLoader s.
     h_bind (returned (h_mergeArrays [clipLoader, dualClipLoader] s)) (\<lambda>clip s.
     h_bind (h_extractModels workflowData ''CLIPVisionLoader'' 0 s) (\<lambda>clip_vision s.
     h_bind (returned (h_extractModelsFromProperties workflowData ''DualCLIPLoader'' ''text_encoders'' s))
       (\<lambda>text_encoders s.
     h_bind (h_extractModels workflowData ''UnetLoader'' 0 s) (\<lambda>unetLoader s.
     h_bind (h_extractModels workflowData ''UNETLoader'' 0 s) (\<lambda>unetLoaderCaps s.
     h_bind (h_extractModels workflowData ''GGUFLoader'' 0 s) (\<lambda>ggufLoader s.
     h_bind (h_extractModels workflowData ''DiffusionModelLoader'' 0 s)
       (\<lambda>diffusionLoader s.
     h_bind (returned (h_mergeArrays [unetLoader, unetLoaderCaps, ggufLoader, diffusionLoader] s))
       (\<lambda>diffusion_models s.
     h_bind (h_extractModels workflowData ''EmbeddingLoader'' 0 s) (\<lambda>embedding s.
     h_bind (h_extractModels workflowData ''StyleModelLoader'' 0 s) (\<lambda>style_models s.
     h_bind (h_extractModels workflowData ''HypernetworkLoader'' 0 s)
       (\<lambda>hypernetworks s.
     h_bind (h_extractModels workflowData ''GLIGENLoader'' 0 s) (\<lambda>gligen s.
     (Inr \<lparr> hr_models =
              \<lparr> hm_checkpoints = checkpoints, hm_vae = vae, hm_loras = loras,
                hm_upscale_models = upscale_models, hm_controlnet = controlnet,
                hm_clip = clip, hm_clip_vision = clip_vision,
                hm_text_encoders = text_encoders, hm_diffusion_models = diffusion_models,
                hm_embedding = embedding, hm_style_models = style_models,
                hm_hypernetworks = hypernetworks, hm_gligen = gligen \<rparr>,
            hr_custom_nodes = customNodes \<rparr>, s))))))))))))))))))))))))))))"

subsection \<open>Reading a workflow and a manifest out of the store\<close>

text \<open>
  \<open>abs_workflow\<close> reads the workflow graph that a store holds as the value the first
  model scans, and \<open>manifest_at\<close> reads a returned manifest. \<open>input_ok\<close>: the addresses
  of the graph are allocated, and its arrays hold what \<open>lib/types.ts\<close> declares.
\<close>

definition elem_value :: "elem \<Rightarrow> jsvalue" where
  "elem_value e = (case e of EValue v \<Rightarrow> v | _ \<Rightarrow> JNull)"

definition elem_model :: "elem \<Rightarrow> ModelEntry" where
  "elem_model e = (case e of EModel m \<Rightarrow> m | _ \<Rightarrow> \<lparr> directory = None, name = None \<rparr>)"

definition abs_node :: "store \<Rightarrow> HNode \<Rightarrow> WorkflowNode" where
  "abs_node s n =
     \<lparr> type = h_type n,
       widgets_values = map_option (\<lambda>a. map elem_value (load s a)) (h_widgets_values n),
       properties =
         map_option
           (\<lambda>p. \<lparr> cnr_id = h_cnr_id p, ver = h_ver p,
                  models = map_option (\<lambda>a. map elem_model (load s a)) (h_models p) \<rparr>)
           (h_properties n) \<rparr>"

definition abs_elem :: "store \<Rightarrow> elem \<Rightarrow> WorkflowNode" where
  "abs_elem s e =
     (case e of
        ENode n \<Rightarrow> abs_node s n
      | _ \<Rightarrow> \<lparr> type = None, widgets_values = None, properties = None \<rparr>)"

definition abs_workflow :: "store \<Rightarrow> HWorkflow \<Rightarrow> WorkflowJSON" where
  "abs_workflow s w =
     \<lparr> nodes = map_option (\<lambda>a. NodesArray (map (abs_elem s) (load s a))) (h_nodes w) \<rparr>"

definition is_value :: "elem \<Rightarrow> bool" where
  "is_value e = (case e of EValue v \<Rightarrow> True | _ \<Rightarrow> False)"

definition is_model :: "elem \<Rightarrow> bool" where
  "is_model e = (case e of EModel m \<Rightarrow> True | _ \<Rightarrow> False)"

definition array_ok :: "store \<Rightarrow> (elem \<Rightarrow> bool) \<Rightarrow> addr option \<Rightarrow> bool" where
  "array_ok s p r = (case r of None \<Rightarrow> True | Some a \<Rightarrow> a < length s \<and> list_all p (s ! a))"

definition node_ok :: "store \<Rightarrow> elem \<Rightarrow> bool" where
  "node_ok s e =
     (case e of
        ENode n \<Rightarrow>
          array_ok s is_value (h_widgets_values n)
          \<and> (case h_properties n of
               None \<Rightarrow> True
             | Some p \<Rightarrow> array_ok s is_model (h_models p))
      | _ \<Rightarrow> False)"

definition input_ok :: "store \<Rightarrow> HWorkflow \<Rightarrow> bool" where
  "input_ok s w = array_ok s (node_ok s) (h_nodes w)"

definition strings_at :: "store \<Rightarrow> addr \<Rightarrow> string list" where
  "strings_at s a = map elem_string (load s a)"

definition custom_at :: "store \<Rightarrow> addr \<Rightarrow> CustomNode list" where
  "custom_at s a =
     List.map_filter (\<lambda>e. case e of ECustom c \<Rightarrow> Some c | _ \<Rightarrow> None) (load s a)"

definition manifest_at :: "store \<Rightarrow> HScanResult \<Rightarrow> ScanResult" where
  "manifest_at s r =
     (let m = hr_models r in
      \<lparr> models =
          \<lparr> checkpoints = strings_at s (hm_checkpoints m), vae = strings_at s (hm_vae m),
            loras = strings_at s (hm_loras m),
            upscale_models = strings_at s (hm_upscale_models m),
            controlnet = strings_at s (hm_controlnet m), clip = strings_at s (hm_clip m),
            clip_vision = strings_at s (hm_clip_vision m),
            text_encoders = strings_at s (hm_text_encoders m),
            diffusion_models = strings_at s (hm_diffusion_models m),
            embedding = strings_at s (hm_embedding m),
            style_models = strings_at s (hm_style_models m),
            hypernetworks = strings_at s (hm_hypernetworks m),
            gligen = strings_at s (hm_gligen m) \<rparr>,
        custom_nodes = custom_at s (hr_custom_nodes r),
        required_models = None \<rparr>)"

text \<open>What a call left: the error, or the manifest read out of the store.\<close>

definition outcome_at :: "store \<Rightarrow> js_error + HScanResult \<Rightarrow> js_error + ScanResult" where
  "outcome_at s r = (case r of Inl e \<Rightarrow> Inl e | Inr m \<Rightarrow> Inr (manifest_at s m))"

text \<open>
  \<open>extends s t\<close>: every array of \<open>s\<close> is in \<open>t\<close> at the same address with the same
  content, so \<open>t\<close> differs from \<open>s\<close> by new arrays only. \<open>holds s a xs\<close>: the array
  at \<open>a\<close> is \<open>xs\<close>.
\<close>

definition extends :: "store \<Rightarrow> store \<Rightarrow> bool" where
  "extends s t = (length s \<le> length t \<and> take (length s) t = s)"

definition holds :: "store \<Rightarrow> addr \<Rightarrow> elem list \<Rightarrow> bool" where
  "holds s a xs = (a < length s \<and> s ! a = xs)"

text \<open>What the two loops of \<open>extractModelsFromProperties\<close> push, per entry and per node.\<close>

definition pushed_name :: "elem \<Rightarrow> string list" where
  "pushed_name m =
     (case elem_name m of None \<Rightarrow> [] | Some x \<Rightarrow> if x \<noteq> [] then [x] else [])"

definition pushed_names :: "elem list \<Rightarrow> string list" where
  "pushed_names ms = concat (map pushed_name ms)"

definition node_names :: "store \<Rightarrow> string \<Rightarrow> elem \<Rightarrow> string list" where
  "node_names s dir e =
     (case elem_models e of
        None \<Rightarrow> []
      | Some ma \<Rightarrow>
          pushed_names
            (filter (\<lambda>m. elem_directory m = Some dir \<and> truthy_str (elem_name m)) (s ! ma)))"

text \<open>
  The invariant of a scan that started in \<open>s0\<close>: the store has only grown, the graph
  reads as it did, and the arrays returned so far hold their results.
\<close>

definition scan_inv :: "store \<Rightarrow> HWorkflow \<Rightarrow> (addr \<times> elem list) list \<Rightarrow> store \<Rightarrow> bool" where
  "scan_inv s0 w hs s =
     (extends s0 s \<and> input_ok s w \<and> abs_workflow s w = abs_workflow s0 w
      \<and> list_all (\<lambda>(a, xs). holds s a xs) hs)"

text \<open>
  \<open>refines s0 p h\<close>: the rest of a scan on the store that started in \<open>s0\<close> ends as
  the rest of the scan on values does: the store has only grown, the outcome read out
  of it is \<open>p\<close>, and it reads the same in every store that grows from there.
\<close>

definition refines ::
  "store \<Rightarrow> js_error + ScanResult \<Rightarrow> (js_error + HScanResult) \<times> store \<Rightarrow> bool" where
  "refines s0 p h =
     (case h of (r, t) \<Rightarrow>
        extends s0 t \<and> p = outcome_at t r
        \<and> (\<forall>u. extends t u \<longrightarrow> outcome_at u r = outcome_at t r))"

text \<open>
  A store with a graph of three nodes: the arrays at 0 and 1 are widget values, the
  array at 2 is a \<open>properties.models\<close>, the array at 3 is \<open>nodes\<close>.
\<close>

definition example_store :: store where
  "example_store =
     [[EValue (JStr ''b.safetensors'')],
      [EValue (JStr ''a.safetensors'')],
      [EModel \<lparr> directory = Some ''vae'', name = Some ''v2.safetensors'' \<rparr>],
      [ENode \<lparr> h_type = Some ''CheckpointLoader'', h_widgets_values = Some 0,
               h_properties = None \<rparr>,
       ENode \<lparr> h_type = Some ''LoadCheckpoint'', h_widgets_values = Some 1,
               h_properties =
                 Some \<lparr> h_cnr_id = Some ''pack-x'', h_ver = None, h_models = None \<rparr> \<rparr>,
       ENode \<lparr> h_type = Some ''VAELoader'', h_widgets_values = None,
               h_properties =
                 Some \<lparr> h_cnr_id = Some ''comfy-core'', h_ver = Some ''1'',
                        h_models = Some 2 \<rparr> \<rparr>]]"

definition example_workflow :: HWorkflow where
  "example_workflow = \<lparr> h_nodes = Some 3 \<rparr>"

definition example_manifest :: ScanResult where
  "example_manifest =
     empty_manifest
       \<lparr> models := (models empty_manifest)
           \<lparr> checkpoints := [''a.safetensors'', ''b.safetensors''],
             vae := [''v2.safetensors''] \<rparr>,
         custom_nodes := [\<lparr> node = ''pack-x'', version = ''latest'', available = None \<rparr>] \<rparr>"

text \<open>
  A store with a graph of two nodes, a package node and a \<open>VAELoader\<close> whose widget
  value is the object \<open>{"toString": null}\<close>; and the stores that a first and a second
  scan leave: each scan allocates the four arrays of \<open>extractCustomNodes\<close> and the
  array of matching nodes of the first \<open>extractModels\<close>, whose \<open>map\<close> throws.
\<close>

definition throwing_store :: store where
  "throwing_store =
     [[EValue own_toString],
      [ENode \<lparr> h_type = None, h_widgets_values = None,
               h_properties =
                 Some \<lparr> h_cnr_id = Some ''pack-x'', h_ver = None, h_models = None \<rparr> \<rparr>,
       ENode \<lparr> h_type = Some ''VAELoader'', h_widgets_values = Some 0,
               h_properties = None \<rparr>]]"

definition throwing_workflow :: HWorkflow where
  "throwing_workflow = \<lparr> h_nodes = Some 1 \<rparr>"

definition throwing_arrays :: store where
  "throwing_arrays =
     [[ENode \<lparr> h_type = None, h_widgets_values = None,
               h_properties =
                 Some \<lparr> h_cnr_id = Some ''pack-x'', h_ver = None, h_models = None \<rparr> \<rparr>],
      [ECustom \<lparr> node = ''pack-x'', version = ''latest'', available = None \<rparr>],
      [EEntry ''pack-x'' \<lparr> node = ''pack-x'', version = ''latest'', available = None \<rparr>],
      [ECustom \<lparr> node = ''pack-x'', version = ''latest'', available = None \<rparr>],
      [ENode \<lparr> h_type = Some ''VAELoader'', h_widgets_values = Some 0,
               h_properties = None \<rparr>]]"

definition throwing_first :: store where
  "throwing_first = throwing_store @ throwing_arrays"

definition throwing_second :: store where
  "throwing_second = throwing_first @ throwing_arrays"

text \<open>The two runs on the first example store.\<close>

definition first_call :: "(js_error + HScanResult) \<times> store" where
  "first_call = h_scanWorkflow example_workflow example_store"

definition second_call :: "(js_error + HScanResult) \<times> store" where
  "second_call = h_scanWorkflow example_workflow (snd first_call)"

section \<open>Properties\<close>

subsection \<open>Sets, sorting and the error monad\<close>

text \<open>The order of the strings: by character code, a proper prefix first.\<close>

lemma string_order_examples:
  "''B'' < ''a'' \<and> ''a'' < ''ab'' \<and> ''ab'' < ''b'' \<and> ''10'' < ''9'' \<and> [] < ''a''"
  by code_simp

lemma bind_Inr [simp]: "bind (Inr x) f = f x"
  by (simp add: bind_def)

lemma bind_Inl [simp]: "bind (Inl e) f = Inl e"
  by (simp add: bind_def)

lemma bind_eq_Inr_iff: "(bind m f = Inr r) = (\<exists>x. m = Inr x \<and> f x = Inr r)"
  by (cases m) simp_all

lemma sequence_results_Inr_iff: "(sequence_results rs = Inr ys) = (rs = map Inr ys)"
  by (induction rs arbitrary: ys) (auto simp: bind_eq_Inr_iff)

lemma set_map_filter_iff: "(y \<in> set (List.map_filter f xs)) = (\<exists>x\<in>set xs. f x = Some y)"
  by (induction xs) (auto split: option.splits)

lemma set_non_null: "set (non_null xs) = {x. Some x \<in> set xs}"
  by (auto simp: non_null_def set_map_filter_iff)

lemma set_foldl_set_add: "set (foldl set_add acc xs) = set acc \<union> set xs"
  by (induction xs arbitrary: acc) (auto simp: set_add_def)

lemma distinct_foldl_set_add: "distinct acc \<Longrightarrow> distinct (foldl set_add acc xs)"
  by (induction xs arbitrary: acc) (auto simp: set_add_def)

lemma set_new_Set [simp]: "set (new_Set xs) = set xs"
  by (simp add: new_Set_def set_foldl_set_add)

lemma distinct_new_Set [simp]: "distinct (new_Set xs)"
  by (simp add: new_Set_def distinct_foldl_set_add)

lemma sort_new_Set: "sort (new_Set xs) = sorted_list_of_set (set xs)"
proof -
  have "sorted_list_of_set (set (new_Set xs)) = sort (new_Set xs)"
    by (rule sorted_list_of_set_sort_remdups [THEN trans]) (simp add: distinct_remdups_id)
  then show ?thesis by simp
qed

lemma sorted_unique_sort_new_Set: "sorted_unique (sort (new_Set xs))"
  by (simp add: sorted_unique_def)

lemma sorted_unique_Nil: "sorted_unique []"
  by (simp add: sorted_unique_def)

subsection \<open>The three cases of the \<open>nodes\<close> field\<close>

lemma extractModels_array:
  "extractModels \<lparr>nodes = Some (NodesArray ns)\<rparr> ty i = extractModels_nodes ns ty i"
  by (simp add: extractModels_def)

lemma extractModelsFromProperties_array:
  "extractModelsFromProperties \<lparr>nodes = Some (NodesArray ns)\<rparr> ty d
     = Inr (extractModelsFromProperties_nodes ns ty d)"
  by (simp add: extractModelsFromProperties_def)

lemma extractCustomNodes_array:
  "extractCustomNodes \<lparr>nodes = Some (NodesArray ns)\<rparr> = Inr (extractCustomNodes_nodes ns)"
  by (simp add: extractCustomNodes_def)

lemma scanWorkflow_array_fields:
  assumes "scanWorkflow \<lparr>nodes = Some (NodesArray ns)\<rparr> = Inr r"
  shows "\<exists>x2 x5 x6 x7 x9 x10 x12 x13 x14 x15 x17 x19 x20 x21 x22 x24 x25 x26 x27.
     extractModels_nodes ns ''VAELoader'' 0 = Inr x2
     \<and> extractModels_nodes ns ''CheckpointLoaderSimple'' 0 = Inr x5
     \<and> extractModels_nodes ns ''CheckpointLoader'' 0 = Inr x6
     \<and> extractModels_nodes ns ''LoadCheckpoint'' 0 = Inr x7
     \<and> extractModels_nodes ns ''LoraLoader'' 0 = Inr x9
     \<and> extractModels_nodes ns ''LoraLoaderModelOnly'' 0 = Inr x10
     \<and> extractModels_nodes ns ''UpscaleModelLoader'' 0 = Inr x12
     \<and> extractModels_nodes ns ''ControlNetLoader'' 0 = Inr x13
     \<and> extractModels_nodes ns ''CLIPLoader'' 0 = Inr x14
     \<and> extractModels_nodes ns ''DualCLIPLoader'' 0 = Inr x15
     \<and> extractModels_nodes ns ''CLIPVisionLoader'' 0 = Inr x17
     \<and> extractModels_nodes ns ''UnetLoader'' 0 = Inr x19
     \<and> extractModels_nodes ns ''UNETLoader'' 0 = Inr x20
     \<and> extractModels_nodes ns ''GGUFLoader'' 0 = Inr x21
     \<and> extractModels_nodes ns ''DiffusionModelLoader'' 0 = Inr x22
     \<and> extractModels_nodes ns ''EmbeddingLoader'' 0 = Inr x24
     \<and> extractModels_nodes ns ''StyleModelLoader'' 0 = Inr x25
     \<and> extractModels_nodes ns ''HypernetworkLoader'' 0 = Inr x26
     \<and> extractModels_nodes ns ''GLIGENLoader'' 0 = Inr x27
     \<and> r = \<lparr> models =
         \<lparr> checkpoints = mergeArrays [x5, x6, x7],
           vae = mergeArrays [x2, extractModelsFromProperties_nodes ns ''VAELoader'' ''vae''],
           loras = mergeArrays [x9, x10],
           upscale_models = x12,
           controlnet = x13,
           clip = mergeArrays [x14, x15],
           clip_vision = x17,
           text_encoders =
             extractModelsFromProperties_nodes ns ''DualCLIPLoader'' ''text_encoders'',
           diffusion_models = mergeArrays [x19, x20, x21, x22],
           embedding = x24,
           style_models = x25,
           hypernetworks = x26,
           gligen = x27 \<rparr>,
       custom_nodes = extractCustomNodes_nodes ns,
       required_models = None \<rparr>"
  using assms
  by (simp add: scanWorkflow_def extractModels_array extractModelsFromProperties_array
      extractCustomNodes_array bind_eq_Inr_iff Let_def) blast

lemma extractModels_no_nodes: "no_nodes v \<Longrightarrow> extractModels \<lparr>nodes = v\<rparr> ty i = Inr []"
  by (auto simp: extractModels_def no_nodes_def split: option.splits)

lemma extractModelsFromProperties_no_nodes:
  "no_nodes v \<Longrightarrow> extractModelsFromProperties \<lparr>nodes = v\<rparr> ty d = Inr []"
  by (auto simp: extractModelsFromProperties_def no_nodes_def split: option.splits)

lemma extractCustomNodes_no_nodes: "no_nodes v \<Longrightarrow> extractCustomNodes \<lparr>nodes = v\<rparr> = Inr []"
  by (auto simp: extractCustomNodes_def no_nodes_def split: option.splits)

lemma mergeArrays_empty:
  "mergeArrays [[], []] = []" "mergeArrays [[], [], []] = []" "mergeArrays [[], [], [], []] = []"
  by (simp_all add: mergeArrays_def new_Set_def)

lemma scanWorkflow_no_nodes: "no_nodes v \<Longrightarrow> scanWorkflow \<lparr>nodes = v\<rparr> = Inr empty_manifest"
  by (simp add: scanWorkflow_def extractModels_no_nodes extractModelsFromProperties_no_nodes
      extractCustomNodes_no_nodes mergeArrays_empty empty_manifest_def)

lemma extractCustomNodes_TypeError:
  "\<not> no_nodes v \<Longrightarrow> \<not> is_array v \<Longrightarrow> extractCustomNodes \<lparr>nodes = v\<rparr> = Inl TypeError"
  by (cases v; cases "the v") (auto simp: extractCustomNodes_def no_nodes_def is_array_def)

lemma scanWorkflow_TypeError:
  "\<not> no_nodes v \<Longrightarrow> \<not> is_array v \<Longrightarrow> scanWorkflow \<lparr>nodes = v\<rparr> = Inl TypeError"
  by (simp add: scanWorkflow_def extractCustomNodes_TypeError)

text \<open>A scan that returns has read no nodes at all, or an array of nodes.\<close>

lemma scanWorkflow_cases:
  assumes "scanWorkflow g = Inr r"
  shows "r = empty_manifest \<or> (\<exists>ns. g = \<lparr>nodes = Some (NodesArray ns)\<rparr>)"
proof (cases g)
  case (fields v)
  show ?thesis
  proof (cases "no_nodes v")
    case True
    with assms fields show ?thesis by (simp add: scanWorkflow_no_nodes)
  next
    case False
    show ?thesis
    proof (cases "is_array v")
      case True
      then obtain ns where "v = Some (NodesArray ns)"
        by (auto simp: is_array_def split: option.splits nodes_field.splits)
      with fields show ?thesis by simp
    next
      case nonarr: False
      with False assms fields show ?thesis by (simp add: scanWorkflow_TypeError)
    qed
  qed
qed

lemma scenario_scan: "scanWorkflow scenario = Inr scenario_result"
  by code_simp

subsection \<open>The insertion-ordered map\<close>

lemma map_of_map_set: "map_of (map_set m k v) = (map_of m)(k \<mapsto> v)"
  by (induction m) (auto simp: fun_eq_iff)

lemma keys_map_set:
  "map fst (map_set m k v) = (if k \<in> fst ` set m then map fst m else map fst m @ [k])"
proof (induction m)
  case Nil
  then show ?case by simp
next
  case (Cons a m)
  obtain k' v' where a: "a = (k', v')" by (cases a)
  show ?case
  proof (cases "k' = k")
    case True
    then show ?thesis by (simp add: a)
  next
    case False
    then have "(k \<in> fst ` set (a # m)) = (k \<in> fst ` set m)"
      by (auto simp: a)
    with False Cons.IH show ?thesis by (simp add: a)
  qed
qed

lemma distinct_keys_map_set: "distinct (map fst m) \<Longrightarrow> distinct (map fst (map_set m k v))"
  by (simp add: keys_map_set)

lemma set_map_set_subset: "set (map_set m k v) \<subseteq> insert (k, v) (set m)"
  by (induction m) (auto split: if_splits)

lemma foldl_map_set_props:
  "distinct (map fst m) \<Longrightarrow>
   distinct (map fst (foldl (\<lambda>m (k, v). map_set m k v) m es))
   \<and> map_of (foldl (\<lambda>m (k, v). map_set m k v) m es) = map_of m ++ map_of (rev es)
   \<and> set (foldl (\<lambda>m (k, v). map_set m k v) m es) \<subseteq> set m \<union> set es"
proof (induction es arbitrary: m)
  case Nil
  then show ?case by simp
next
  case (Cons e es)
  obtain k v where e: "e = (k, v)" by (cases e)
  have d: "distinct (map fst (map_set m k v))"
    using Cons.prems by (rule distinct_keys_map_set)
  have "map_of (map_set m k v) ++ map_of (rev es) = map_of m ++ map_of (rev es @ [(k, v)])"
    by (simp add: map_of_map_set fun_eq_iff map_add_def split: option.splits)
  moreover have "set (map_set m k v) \<union> set es \<subseteq> set m \<union> set ((k, v) # es)"
    using set_map_set_subset [of m k v] by auto
  ultimately show ?case
    using Cons.IH [OF d] by (auto simp: e)
qed

lemma distinct_keys_new_Map: "distinct (map fst (new_Map es))"
  using foldl_map_set_props [of "[]" es] by (simp add: new_Map_def)

lemma map_of_new_Map: "map_of (new_Map es) = map_of (rev es)"
  using foldl_map_set_props [of "[]" es] by (simp add: new_Map_def)

lemma set_new_Map_subset: "set (new_Map es) \<subseteq> set es"
  using foldl_map_set_props [of "[]" es] by (simp add: new_Map_def)

text \<open>With distinct keys, the entries under one key are the one the lookup finds.\<close>

lemma filter_key_distinct:
  "distinct (map fst m) \<Longrightarrow> map_of m k = Some v \<Longrightarrow> filter (\<lambda>kv. fst kv = k) m = [(k, v)]"
proof (induction m)
  case Nil
  then show ?case by simp
next
  case (Cons a m)
  show ?case
  proof (cases "fst a = k")
    case True
    with Cons.prems have "a = (k, v)" by (cases a) simp
    moreover have "k \<notin> fst ` set m"
      using Cons.prems(1) True by simp
    then have "filter (\<lambda>kv. fst kv = k) m = []"
      by (auto simp: filter_empty_conv)
    ultimately show ?thesis by simp
  next
    case False
    with Cons show ?thesis by (cases a) auto
  qed
qed

lemma map_of_rev_keyed:
  "map_of (rev (map (\<lambda>x. (f x, x)) xs)) k =
     (if filter (\<lambda>x. f x = k) xs = [] then None else Some (last (filter (\<lambda>x. f x = k) xs)))"
  by (induction xs rule: rev_induct) (auto simp: map_add_def)

lemma new_Map_keyed_entries:
  "kv \<in> set (new_Map (map (\<lambda>x. (f x, x)) xs)) \<Longrightarrow> fst kv = f (snd kv) \<and> snd kv \<in> set xs"
  using set_new_Map_subset [of "map (\<lambda>x. (f x, x)) xs"] by auto

text \<open>The entries of a given key after deduplication: the last item carrying the key.\<close>

lemma values_new_Map_keyed:
  assumes "filter (\<lambda>x. f x = k) xs \<noteq> []"
  shows "filter (\<lambda>x. f x = k) (map_values (new_Map (map (\<lambda>x. (f x, x)) xs)))
           = [last (filter (\<lambda>x. f x = k) xs)]"
proof -
  let ?m = "new_Map (map (\<lambda>x. (f x, x)) xs)"
  have "map_of ?m k = Some (last (filter (\<lambda>x. f x = k) xs))"
    using assms by (simp add: map_of_new_Map map_of_rev_keyed)
  then have one: "filter (\<lambda>kv. fst kv = k) ?m = [(k, last (filter (\<lambda>x. f x = k) xs))]"
    by (rule filter_key_distinct [OF distinct_keys_new_Map])
  have "filter (\<lambda>x. f x = k) (map snd ?m) = map snd (filter (\<lambda>kv. fst kv = k) ?m)"
    unfolding filter_map comp_def
    by (rule arg_cong [where f = "map snd"], rule filter_cong)
       (use new_Map_keyed_entries [of _ f xs] in auto)
  with one show ?thesis by (simp add: map_values_def)
qed

lemma set_values_new_Map_keyed:
  "set (map_values (new_Map (map (\<lambda>x. (f x, x)) xs))) \<subseteq> set xs"
  using new_Map_keyed_entries [of _ f xs] by (auto simp: map_values_def)

subsection \<open>The custom node pipeline\<close>

lemma node_to_custom: "properties_cnr_id n = Some pid \<Longrightarrow> node (to_custom n) = pid"
  by (simp add: to_custom_def)

lemma is_custom_iff:
  "is_custom n \<longleftrightarrow> (\<exists>pid. properties_cnr_id n = Some pid \<and> pid \<noteq> [] \<and> pid \<noteq> ''comfy-core'')"
  by (auto simp: is_custom_def truthy_str_def split: option.splits)

lemma custom_items_of_package:
  assumes "pid \<noteq> []" "pid \<noteq> ''comfy-core''"
  shows "filter (\<lambda>item. node item = pid) (map to_custom (filter is_custom ns))
           = map to_custom (filter (\<lambda>n. properties_cnr_id n = Some pid) ns)"
proof -
  have "filter (\<lambda>n. node (to_custom n) = pid) (filter is_custom ns)
          = filter (\<lambda>n. properties_cnr_id n = Some pid) ns"
    unfolding filter_filter
    by (rule filter_cong) (use assms node_to_custom is_custom_iff in auto)
  then show ?thesis by (simp add: filter_map comp_def)
qed

lemma extractCustomNodes_nodes_package:
  assumes "pid \<noteq> []" "pid \<noteq> ''comfy-core''"
    and "filter (\<lambda>n. properties_cnr_id n = Some pid) ns \<noteq> []"
  shows "filter (\<lambda>e. node e = pid) (extractCustomNodes_nodes ns)
           = [to_custom (last (filter (\<lambda>n. properties_cnr_id n = Some pid) ns))]"
proof -
  let ?items = "map to_custom (filter is_custom ns)"
  have eq: "filter (\<lambda>item. node item = pid) ?items
              = map to_custom (filter (\<lambda>n. properties_cnr_id n = Some pid) ns)"
    using assms(1,2) by (rule custom_items_of_package)
  with assms(3) have ne: "filter (\<lambda>item. node item = pid) ?items \<noteq> []" by simp
  show ?thesis
    using values_new_Map_keyed [OF ne] assms(3)
    by (simp add: extractCustomNodes_nodes_def eq last_map)
qed

lemma extractCustomNodes_nodes_not_core:
  "e \<in> set (extractCustomNodes_nodes ns) \<Longrightarrow> node e \<noteq> ''comfy-core'' \<and> node e \<noteq> []"
proof -
  assume "e \<in> set (extractCustomNodes_nodes ns)"
  then have "e \<in> set (map to_custom (filter is_custom ns))"
    using set_values_new_Map_keyed [of node "map to_custom (filter is_custom ns)"]
    by (auto simp: extractCustomNodes_nodes_def)
  then obtain n where "is_custom n" "e = to_custom n" by auto
  then show ?thesis using node_to_custom [of n] by (auto simp: is_custom_iff)
qed

subsection \<open>What the extraction functions return\<close>

lemma included_truthy: "included v = truthy v"
  by (cases v) simp_all

lemma widget_string_iff:
  "(widget_string w = Inr (Some s)) = (\<exists>v. w = Some v \<and> included v \<and> String v = Inr s)"
proof (cases w)
  case None
  then show ?thesis by (simp add: widget_string_def)
next
  case (Some v)
  have "truthy v \<Longrightarrow> v \<noteq> JStr []" by auto
  with Some show ?thesis by (auto simp: widget_string_def included_truthy bind_eq_Inr_iff)
qed

lemma extractModels_nodes_Inr:
  assumes "extractModels_nodes ns ty i = Inr xs"
  obtains mapped where
    "map (\<lambda>n. widget_string (widget_value n i)) (filter (\<lambda>n. type n = Some ty) ns)
       = map Inr mapped"
    and "xs = sort (new_Set (non_null mapped))"
  using assms
  by (auto simp: extractModels_nodes_def bind_eq_Inr_iff sequence_results_Inr_iff Let_def)

lemma set_extractModels_nodes:
  assumes "extractModels_nodes ns ty i = Inr xs"
  shows "set xs = {s. \<exists>n\<in>set ns. type n = Some ty
           \<and> (\<exists>v. widget_value n i = Some v \<and> included v \<and> String v = Inr s)}"
proof -
  from assms obtain mapped where
    m: "map (\<lambda>n. widget_string (widget_value n i)) (filter (\<lambda>n. type n = Some ty) ns)
       = map Inr mapped"
    and xs: "xs = sort (new_Set (non_null mapped))"
    by (rule extractModels_nodes_Inr)
  have "(Some s \<in> set mapped)
      = (\<exists>n\<in>set ns. type n = Some ty \<and> widget_string (widget_value n i) = Inr (Some s))" for s
  proof -
    have "(Some s \<in> set mapped)
        = (Inr (Some s) \<in> set (map Inr mapped :: (js_error + string option) list))"
      by auto
    also have "\<dots> = (Inr (Some s) \<in> set (map (\<lambda>n. widget_string (widget_value n i))
        (filter (\<lambda>n. type n = Some ty) ns)))"
      by (simp only: m)
    also have "\<dots>
        = (\<exists>n\<in>set ns. type n = Some ty \<and> widget_string (widget_value n i) = Inr (Some s))"
      by force
    finally show ?thesis .
  qed
  then show ?thesis by (simp add: xs set_non_null widget_string_iff set_eq_iff)
qed

lemma positional_entry_iff:
  "((case widget_value n 0 of None \<Rightarrow> None
     | Some v \<Rightarrow> if included v then printed v else None) = Some s)
   = (\<exists>v. widget_value n 0 = Some v \<and> included v \<and> String v = Inr s)"
  by (cases "widget_value n 0") (auto simp: printed_def split: sum.splits)

lemma set_positional_strings:
  "set (positional_strings ns tys) = {s. \<exists>n\<in>set ns. type n \<in> Some ` set tys
           \<and> (\<exists>v. widget_value n 0 = Some v \<and> included v \<and> String v = Inr s)}"
  unfolding positional_strings_def
  by (auto simp: set_map_filter_iff positional_entry_iff) blast+

lemma set_positional_strings_Cons:
  "set (positional_strings ns (a # as))
     = set (positional_strings ns [a]) \<union> set (positional_strings ns as)"
  unfolding set_positional_strings by auto

lemma set_positional_strings_Nil: "set (positional_strings ns []) = {}"
  by (simp add: positional_strings_def)

lemma set_extractModels_nodes_positional:
  "extractModels_nodes ns ty 0 = Inr xs \<Longrightarrow> set xs = set (positional_strings ns [ty])"
  by (simp add: set_extractModels_nodes set_positional_strings)

lemma set_pushed_entries:
  "set (List.map_filter
          (\<lambda>m. if directory m = Some dir \<and> truthy_str (name m) then name m else None) ms)
     = set (List.map_filter (\<lambda>m. if directory m = Some dir then name m else None) ms) - {[]}"
proof -
  have eq: "((if directory m = Some dir \<and> truthy_str (name m) then name m else None) = Some x)
      = ((if directory m = Some dir then name m else None) = Some x \<and> x \<noteq> [])" for m x
    by (auto simp: truthy_str_def)
  show ?thesis
    by (simp add: set_eq_iff set_map_filter_iff eq)
qed

lemma set_property_names:
  "set (property_names ns ty dir) = set (model_names ns ty dir) - {[]}"
proof (induction ns)
  case Nil
  then show ?case by (simp add: property_names_def model_names_def)
next
  case (Cons n ns)
  let ?P = "\<lambda>ms. List.map_filter
      (\<lambda>m. if directory m = Some dir \<and> truthy_str (name m) then name m else None) ms"
  let ?M = "\<lambda>ms. List.map_filter (\<lambda>m. if directory m = Some dir then name m else None) ms"
  consider "type n \<noteq> Some ty" | "type n = Some ty" "properties n = None"
    | p where "type n = Some ty" "properties n = Some p" "Properties.models p = None"
    | p ms where "type n = Some ty" "properties n = Some p" "Properties.models p = Some ms"
    by (cases "properties n"; cases "Properties.models (the (properties n))") auto
  then show ?case
  proof cases
    case 1
    then show ?thesis using Cons.IH by (simp add: property_names_def model_names_def)
  next
    case 2
    then show ?thesis using Cons.IH by (simp add: property_names_def model_names_def)
  next
    case 3
    then show ?thesis using Cons.IH by (simp add: property_names_def model_names_def)
  next
    case 4
    then have "property_names (n # ns) ty dir = ?P ms @ property_names ns ty dir"
      and "model_names (n # ns) ty dir = ?M ms @ model_names ns ty dir"
      by (simp_all add: property_names_def model_names_def)
    then show ?thesis
      using Cons.IH set_pushed_entries [of dir ms] by (simp add: Un_Diff)
  qed
qed

lemma sorted_unique_extractModels_nodes:
  "extractModels_nodes ns ty i = Inr xs \<Longrightarrow> sorted_unique xs"
  by (erule extractModels_nodes_Inr) (simp add: sorted_unique_sort_new_Set)

lemma sorted_unique_extractModelsFromProperties_nodes:
  "sorted_unique (extractModelsFromProperties_nodes ns ty d)"
  by (simp add: extractModelsFromProperties_nodes_def sorted_unique_sort_new_Set)

lemma sorted_unique_mergeArrays: "sorted_unique (mergeArrays xss)"
  by (simp add: mergeArrays_def sorted_unique_sort_new_Set)

lemma all_sorted_unique_array:
  assumes "scanWorkflow \<lparr>nodes = Some (NodesArray ns)\<rparr> = Inr r"
  shows "all_sorted_unique (models r)"
proof -
  from scanWorkflow_array_fields [OF assms] obtain x2 x5 x6 x7 x9 x10 x12 x13 x14 x15 x17 x19 x20 x21 x22 x24 x25 x26 x27 where
    e2: "extractModels_nodes ns ''VAELoader'' 0 = Inr x2"
    and e5: "extractModels_nodes ns ''CheckpointLoaderSimple'' 0 = Inr x5"
    and e6: "extractModels_nodes ns ''CheckpointLoader'' 0 = Inr x6"
    and e7: "extractModels_nodes ns ''LoadCheckpoint'' 0 = Inr x7"
    and e9: "extractModels_nodes ns ''LoraLoader'' 0 = Inr x9"
    and e10: "extractModels_nodes ns ''LoraLoaderModelOnly'' 0 = Inr x10"
    and e12: "extractModels_nodes ns ''UpscaleModelLoader'' 0 = Inr x12"
    and e13: "extractModels_nodes ns ''ControlNetLoader'' 0 = Inr x13"
    and e14: "extractModels_nodes ns ''CLIPLoader'' 0 = Inr x14"
    and e15: "extractModels_nodes ns ''DualCLIPLoader'' 0 = Inr x15"
    and e17: "extractModels_nodes ns ''CLIPVisionLoader'' 0 = Inr x17"
    and e19: "extractModels_nodes ns ''UnetLoader'' 0 = Inr x19"
    and e20: "extractModels_nodes ns ''UNETLoader'' 0 = Inr x20"
    and e21: "extractModels_nodes ns ''GGUFLoader'' 0 = Inr x21"
    and e22: "extractModels_nodes ns ''DiffusionModelLoader'' 0 = Inr x22"
    and e24: "extractModels_nodes ns ''EmbeddingLoader'' 0 = Inr x24"
    and e25: "extractModels_nodes ns ''StyleModelLoader'' 0 = Inr x25"
    and e26: "extractModels_nodes ns ''HypernetworkLoader'' 0 = Inr x26"
    and e27: "extractModels_nodes ns ''GLIGENLoader'' 0 = Inr x27"
    and r: "r = \<lparr> models =
         \<lparr> checkpoints = mergeArrays [x5, x6, x7],
           vae = mergeArrays [x2, extractModelsFromProperties_nodes ns ''VAELoader'' ''vae''],
           loras = mergeArrays [x9, x10],
           upscale_models = x12,
           controlnet = x13,
           clip = mergeArrays [x14, x15],
           clip_vision = x17,
           text_encoders =
             extractModelsFromProperties_nodes ns ''DualCLIPLoader'' ''text_encoders'',
           diffusion_models = mergeArrays [x19, x20, x21, x22],
           embedding = x24,
           style_models = x25,
           hypernetworks = x26,
           gligen = x27 \<rparr>,
       custom_nodes = extractCustomNodes_nodes ns,
       required_models = None \<rparr>"
    by blast
  note su = sorted_unique_extractModels_nodes
  show ?thesis
    by (simp add: r all_sorted_unique_def sorted_unique_mergeArrays
        sorted_unique_extractModelsFromProperties_nodes
        su [OF e12] su [OF e13] su [OF e17] su [OF e24] su [OF e25] su [OF e26] su [OF e27])
qed

lemma custom_nodes_array:
  assumes "scanWorkflow \<lparr>nodes = Some (NodesArray ns)\<rparr> = Inr r"
  shows "custom_nodes r = extractCustomNodes_nodes ns"
  using scanWorkflow_array_fields [OF assms] by auto

lemma mergeArrays_sorted_list:
  "mergeArrays xss = sorted_list_of_set ((\<Union>xs\<in>set xss. set xs) - {[]})"
proof -
  have "set (filter (\<lambda>item. item \<noteq> []) (concat xss)) = (\<Union>xs\<in>set xss. set xs) - {[]}"
    by auto
  then show ?thesis by (simp only: mergeArrays_def sort_new_Set)
qed

lemma set_mergeArrays: "set (mergeArrays xss) = (\<Union>xs\<in>set xss. set xs) - {[]}"
  by (auto simp: mergeArrays_def)

lemma push_names_append:
  "push_names acc (filter (\<lambda>m. directory m = Some dir \<and> truthy_str (name m)) ms)
     = acc @ List.map_filter
         (\<lambda>m. if directory m = Some dir \<and> truthy_str (name m) then name m else None) ms"
  unfolding push_names_def
  by (induction ms arbitrary: acc) (auto simp: truthy_str_def split: option.splits)

lemma foldl_append_concat:
  "foldl (\<lambda>acc x. acc @ g x) acc xs = acc @ concat (map g xs)"
  by (induction xs arbitrary: acc) auto

lemma properties_fold_eq:
  "(\<lambda>acc n. case properties n of None \<Rightarrow> acc
      | Some p \<Rightarrow> (case Properties.models p of None \<Rightarrow> acc
          | Some ms \<Rightarrow> push_names acc
              (filter (\<lambda>model. directory model = Some dir \<and> truthy_str (name model)) ms)))
   = (\<lambda>acc n. acc @ (case properties n of None \<Rightarrow> []
      | Some p \<Rightarrow> (case Properties.models p of None \<Rightarrow> []
          | Some ms \<Rightarrow> List.map_filter
              (\<lambda>m. if directory m = Some dir \<and> truthy_str (name m) then name m else None) ms)))"
  by (auto simp: fun_eq_iff push_names_append split: option.splits)

lemma extractModelsFromProperties_nodes_eq:
  "extractModelsFromProperties_nodes ns ty dir = sort (new_Set (property_names ns ty dir))"
  by (simp add: extractModelsFromProperties_nodes_def property_names_def properties_fold_eq
      foldl_append_concat)

lemma set_extractModelsFromProperties_nodes:
  "set (extractModelsFromProperties_nodes ns ty dir) = set (model_names ns ty dir) - {[]}"
  by (simp add: extractModelsFromProperties_nodes_eq set_property_names)

lemma category_set:
  assumes "scanWorkflow \<lparr>nodes = Some (NodesArray ns)\<rparr> = Inr r"
  shows "set (category_of c (models r)) =
     {s \<in> set (positional_strings ns (positional_types c)). kept c s}
     \<union> {s. \<exists>(ty, dir)\<in>set (property_source c). s \<in> set (model_names ns ty dir) \<and> s \<noteq> []}"
proof -
  from scanWorkflow_array_fields [OF assms] obtain x2 x5 x6 x7 x9 x10 x12 x13 x14 x15 x17 x19 x20 x21 x22 x24 x25 x26 x27 where
    e2: "extractModels_nodes ns ''VAELoader'' 0 = Inr x2"
    and e5: "extractModels_nodes ns ''CheckpointLoaderSimple'' 0 = Inr x5"
    and e6: "extractModels_nodes ns ''CheckpointLoader'' 0 = Inr x6"
    and e7: "extractModels_nodes ns ''LoadCheckpoint'' 0 = Inr x7"
    and e9: "extractModels_nodes ns ''LoraLoader'' 0 = Inr x9"
    and e10: "extractModels_nodes ns ''LoraLoaderModelOnly'' 0 = Inr x10"
    and e12: "extractModels_nodes ns ''UpscaleModelLoader'' 0 = Inr x12"
    and e13: "extractModels_nodes ns ''ControlNetLoader'' 0 = Inr x13"
    and e14: "extractModels_nodes ns ''CLIPLoader'' 0 = Inr x14"
    and e15: "extractModels_nodes ns ''DualCLIPLoader'' 0 = Inr x15"
    and e17: "extractModels_nodes ns ''CLIPVisionLoader'' 0 = Inr x17"
    and e19: "extractModels_nodes ns ''UnetLoader'' 0 = Inr x19"
    and e20: "extractModels_nodes ns ''UNETLoader'' 0 = Inr x20"
    and e21: "extractModels_nodes ns ''GGUFLoader'' 0 = Inr x21"
    and e22: "extractModels_nodes ns ''DiffusionModelLoader'' 0 = Inr x22"
    and e24: "extractModels_nodes ns ''EmbeddingLoader'' 0 = Inr x24"
    and e25: "extractModels_nodes ns ''StyleModelLoader'' 0 = Inr x25"
    and e26: "extractModels_nodes ns ''HypernetworkLoader'' 0 = Inr x26"
    and e27: "extractModels_nodes ns ''GLIGENLoader'' 0 = Inr x27"
    and r: "r = \<lparr> models =
         \<lparr> checkpoints = mergeArrays [x5, x6, x7],
           vae = mergeArrays [x2, extractModelsFromProperties_nodes ns ''VAELoader'' ''vae''],
           loras = mergeArrays [x9, x10],
           upscale_models = x12,
           controlnet = x13,
           clip = mergeArrays [x14, x15],
           clip_vision = x17,
           text_encoders =
             extractModelsFromProperties_nodes ns ''DualCLIPLoader'' ''text_encoders'',
           diffusion_models = mergeArrays [x19, x20, x21, x22],
           embedding = x24,
           style_models = x25,
           hypernetworks = x26,
           gligen = x27 \<rparr>,
       custom_nodes = extractCustomNodes_nodes ns,
       required_models = None \<rparr>"
    by blast
  note ps = set_extractModels_nodes_positional
  note sets = ps [OF e2] ps [OF e5] ps [OF e6] ps [OF e7] ps [OF e9] ps [OF e10] ps [OF e12] ps [OF e13] ps [OF e14] ps [OF e15] ps [OF e17] ps [OF e19] ps [OF e20] ps [OF e21] ps [OF e22] ps [OF e24] ps [OF e25] ps [OF e26] ps [OF e27]
  show ?thesis
    by (cases c)
      (auto simp: r kept_def set_mergeArrays sets set_extractModelsFromProperties_nodes
        set_positional_strings_Cons [of ns _ "_ # _"] set_positional_strings_Nil)
qed

subsection \<open>Empty input\<close>

text \<open>
  C9. \<open>scanWorkflow({})\<close> and \<open>scanWorkflow({nodes: []})\<close> both return the manifest whose
  thirteen categories are empty and whose custom node list is empty.
\<close>

theorem scanWorkflow_empty_inputs:
  "scanWorkflow \<lparr>nodes = None\<rparr> = Inr empty_manifest
   \<and> scanWorkflow \<lparr>nodes = Some (NodesArray [])\<rparr> = Inr empty_manifest"
proof
  show "scanWorkflow \<lparr>nodes = None\<rparr> = Inr empty_manifest"
    by (simp add: scanWorkflow_no_nodes no_nodes_def)
  show "scanWorkflow \<lparr>nodes = Some (NodesArray [])\<rparr> = Inr empty_manifest"
    by (simp add: scanWorkflow_def extractModels_array extractModelsFromProperties_array
        extractCustomNodes_array extractModels_nodes_def non_null_def
        extractModelsFromProperties_nodes_def extractCustomNodes_nodes_def mergeArrays_def
        new_Set_def new_Map_def map_values_def empty_manifest_def List.map_filter_simps)
qed

subsection \<open>A \<open>nodes\<close> field that is not an array\<close>

text \<open>
  C2, as the claim states it, fails: with \<open>nodes\<close> the number 5 the guard
  \<open>!workflow.nodes\<close> does not fire, and \<open>workflow.nodes.filter\<close> is not a function.
\<close>

theorem scanWorkflow_nodes_number_throws:
  "scanWorkflow \<lparr>nodes = Some (NodesNum 5)\<rparr> = Inl TypeError"
  by (simp add: scanWorkflow_def extractCustomNodes_def)

text \<open>
  C2, amended. When the \<open>nodes\<close> field is not an array, \<open>scanWorkflow\<close> returns the empty
  manifest if the field is absent or falsy (\<open>null\<close>, \<open>false\<close>, \<open>0\<close>, the empty string), and
  throws a \<open>TypeError\<close> for every other value (a non-zero number, a non-empty string,
  \<open>true\<close>, an object).
\<close>

theorem scanWorkflow_nodes_not_array:
  "\<not> is_array v \<Longrightarrow>
   scanWorkflow \<lparr>nodes = v\<rparr> = (if no_nodes v then Inr empty_manifest else Inl TypeError)"
  by (simp add: scanWorkflow_TypeError scanWorkflow_no_nodes)

theorem scanWorkflow_nodes_not_array_witness:
  "\<not> is_array (Some (NodesStr []))
   \<and> scanWorkflow \<lparr>nodes = Some (NodesStr [])\<rparr> = Inr empty_manifest
   \<and> \<not> is_array (Some (NodesObj []))
   \<and> scanWorkflow \<lparr>nodes = Some (NodesObj [])\<rparr> = Inl TypeError"
  using scanWorkflow_nodes_not_array [of "Some (NodesStr [])"]
    scanWorkflow_nodes_not_array [of "Some (NodesObj [])"]
  by (simp add: is_array_def no_nodes_def)

subsection \<open>Every category is sorted and free of duplicates\<close>

lemma all_sorted_unique_empty: "all_sorted_unique (models empty_manifest)"
  by (simp add: all_sorted_unique_def empty_manifest_def sorted_unique_Nil)

text \<open>
  C4. Whatever the input, every one of the thirteen categories of a manifest that
  \<open>scanWorkflow\<close> returns is sorted ascending in the lexicographic order of the strings
  and holds no element twice.
\<close>

theorem scanWorkflow_categories_sorted_unique:
  "scanWorkflow g = Inr r \<Longrightarrow> all_sorted_unique (models r)"
  using scanWorkflow_cases [of g r] all_sorted_unique_empty all_sorted_unique_array by blast

theorem scanWorkflow_categories_sorted_unique_witness:
  "scanWorkflow scenario = Inr scenario_result \<and> all_sorted_unique (models scenario_result)"
  using scenario_scan scanWorkflow_categories_sorted_unique [OF scenario_scan] by simp

subsection \<open>Custom node packages\<close>

text \<open>
  C1, as the claim states it, fails: of two nodes of \<open>pack-x\<close> with versions 1.0 and 2.0,
  in that order, the one entry kept records 2.0, the version of the second node.
  \<open>new Map(entries)\<close> overwrites the value of a key that is already present.
\<close>

theorem scanWorkflow_two_versions_keeps_last:
  "scanWorkflow two_versions =
     Inr (empty_manifest
       \<lparr> custom_nodes := [\<lparr> node = ''pack-x'', version = ''2.0'', available = None \<rparr>] \<rparr>)"
  by code_simp

text \<open>
  C1, amended. When one or more nodes of the array carry the package id \<open>pid\<close> (not
  empty, not \<open>comfy-core\<close>), the custom node list holds exactly one entry for \<open>pid\<close>,
  and its version is the one of the last such node in the order of the array
  (\<open>latest\<close> when that node has no version or an empty one).
\<close>

theorem scanWorkflow_package_entry_last_version:
  assumes "scanWorkflow \<lparr>nodes = Some (NodesArray ns)\<rparr> = Inr r"
    and "pid \<noteq> []" and "pid \<noteq> ''comfy-core''"
    and "filter (\<lambda>n. properties_cnr_id n = Some pid) ns \<noteq> []"
  shows "filter (\<lambda>e. node e = pid) (custom_nodes r) =
     [\<lparr> node = pid,
        version = ver_or_latest
          (properties_ver (last (filter (\<lambda>n. properties_cnr_id n = Some pid) ns))),
        available = None \<rparr>]"
proof -
  let ?l = "last (filter (\<lambda>n. properties_cnr_id n = Some pid) ns)"
  have "?l \<in> set (filter (\<lambda>n. properties_cnr_id n = Some pid) ns)"
    using assms(4) by (rule last_in_set)
  then have "properties_cnr_id ?l = Some pid" by simp
  then have "to_custom ?l =
      \<lparr> node = pid, version = ver_or_latest (properties_ver ?l), available = None \<rparr>"
    by (simp add: to_custom_def)
  moreover have "custom_nodes r = extractCustomNodes_nodes ns"
    using assms(1) by (rule custom_nodes_array)
  ultimately show ?thesis
    using extractCustomNodes_nodes_package [OF assms(2,3,4)] by simp
qed

theorem scanWorkflow_package_entry_last_version_witness:
  "scanWorkflow \<lparr>nodes = Some (NodesArray three_packages)\<rparr> = Inr three_packages_result
   \<and> ''pack-x'' \<noteq> [] \<and> ''pack-x'' \<noteq> ''comfy-core''
   \<and> filter (\<lambda>n. properties_cnr_id n = Some ''pack-x'') three_packages \<noteq> []
   \<and> filter (\<lambda>e. node e = ''pack-x'') (custom_nodes three_packages_result)
       = [\<lparr> node = ''pack-x'', version = ''2.0'', available = None \<rparr>]"
proof -
  have scan: "scanWorkflow \<lparr>nodes = Some (NodesArray three_packages)\<rparr>
      = Inr three_packages_result"
    by code_simp
  have ne: "filter (\<lambda>n. properties_cnr_id n = Some ''pack-x'') three_packages \<noteq> []"
    by (simp add: three_packages_def properties_cnr_id_def package_node_def)
  have "last (filter (\<lambda>n. properties_cnr_id n = Some ''pack-x'') three_packages)
      = package_node ''pack-x'' (Some ''2.0'')"
    by (simp add: three_packages_def properties_cnr_id_def package_node_def)
  then have v: "ver_or_latest (properties_ver
      (last (filter (\<lambda>n. properties_cnr_id n = Some ''pack-x'') three_packages))) = ''2.0''"
    by (simp add: ver_or_latest_def properties_ver_def package_node_def)
  have "''pack-x'' \<noteq> []" "''pack-x'' \<noteq> ''comfy-core''" by simp_all
  from scanWorkflow_package_entry_last_version [OF scan this ne] scan ne v
  show ?thesis by simp
qed

text \<open>
  C5. No entry of the custom node list a scan returns names the package
  \<open>comfy-core\<close>.
\<close>

theorem scanWorkflow_no_core_package:
  assumes "scanWorkflow g = Inr r" and "e \<in> set (custom_nodes r)"
  shows "node e \<noteq> ''comfy-core''"
proof -
  from assms(1) consider "r = empty_manifest"
    | ns where "g = \<lparr>nodes = Some (NodesArray ns)\<rparr>"
    using scanWorkflow_cases by blast
  then show ?thesis
  proof cases
    case 1
    with assms(2) show ?thesis by (simp add: empty_manifest_def)
  next
    case 2
    with assms have "e \<in> set (extractCustomNodes_nodes ns)"
      by (simp add: custom_nodes_array)
    then show ?thesis by (simp add: extractCustomNodes_nodes_not_core)
  qed
qed

theorem scanWorkflow_no_core_package_witness:
  "scanWorkflow scenario = Inr scenario_result
   \<and> \<lparr> node = ''custom-controlnet-node'', version = ''1.2.0'', available = None \<rparr>
       \<in> set (custom_nodes scenario_result)
   \<and> node \<lparr> node = ''custom-controlnet-node'', version = ''1.2.0'', available = None \<rparr>
       \<noteq> ''comfy-core''"
proof -
  have m: "\<lparr> node = ''custom-controlnet-node'', version = ''1.2.0'', available = None \<rparr>
       \<in> set (custom_nodes scenario_result)"
    by (simp add: scenario_result_def)
  from scenario_scan m scanWorkflow_no_core_package [OF scenario_scan m]
  show ?thesis by simp
qed

text \<open>
  C10, as the claim states it, fails: a node of \<open>pack-y\<close> whose version is the empty
  string, followed by a node of \<open>pack-y\<close> with version 3.1, is not recorded with
  version \<open>latest\<close>. The one entry of \<open>pack-y\<close> records 3.1, the version of the later
  node.
\<close>

theorem scanWorkflow_later_version_replaces_latest:
  "properties_cnr_id (package_node ''pack-y'' (Some [])) = Some ''pack-y''
   \<and> properties_ver (package_node ''pack-y'' (Some [])) = Some []
   \<and> scanWorkflow \<lparr>nodes = Some (NodesArray
         [package_node ''pack-y'' (Some []), package_node ''pack-y'' (Some ''3.1'')])\<rparr>
       = Inr (empty_manifest
           \<lparr> custom_nodes := [\<lparr> node = ''pack-y'', version = ''3.1'', available = None \<rparr>] \<rparr>)"
proof -
  have "scanWorkflow \<lparr>nodes = Some (NodesArray
         [package_node ''pack-y'' (Some []), package_node ''pack-y'' (Some ''3.1'')])\<rparr>
       = Inr (empty_manifest
           \<lparr> custom_nodes := [\<lparr> node = ''pack-y'', version = ''3.1'', available = None \<rparr>] \<rparr>)"
    by code_simp
  then show ?thesis
    by (simp add: properties_cnr_id_def properties_ver_def package_node_def)
qed

text \<open>
  C10, amended. A node with a package id \<open>pid\<close> (not empty, not \<open>comfy-core\<close>) whose
  version is falsy, that is absent or the empty string, is recorded as \<open>pid\<close> with
  version \<open>latest\<close> when no later node of the array carries the same package id.
\<close>

theorem scanWorkflow_falsy_version_latest:
  assumes "scanWorkflow \<lparr>nodes = Some (NodesArray (pre @ n # post))\<rparr> = Inr r"
    and "properties_cnr_id n = Some pid" and "pid \<noteq> []" and "pid \<noteq> ''comfy-core''"
    and "\<not> truthy_str (properties_ver n)"
    and "list_all (\<lambda>m. properties_cnr_id m \<noteq> Some pid) post"
  shows "filter (\<lambda>e. node e = pid) (custom_nodes r)
           = [\<lparr> node = pid, version = ''latest'', available = None \<rparr>]"
proof -
  let ?P = "\<lambda>n. properties_cnr_id n = Some pid"
  have post: "filter ?P post = []"
    using assms(6) by (auto simp: filter_empty_conv list_all_iff)
  with assms(2) have fl: "filter ?P (pre @ n # post) = filter ?P pre @ [n]" by simp
  then have ne: "filter ?P (pre @ n # post) \<noteq> []"
    and l: "last (filter ?P (pre @ n # post)) = n"
    by simp_all
  have "to_custom n = \<lparr> node = pid, version = ''latest'', available = None \<rparr>"
    using assms(2,5)
    by (auto simp: to_custom_def ver_or_latest_def truthy_str_def split: option.splits)
  moreover have "custom_nodes r = extractCustomNodes_nodes (pre @ n # post)"
    using assms(1) by (rule custom_nodes_array)
  ultimately show ?thesis
    using extractCustomNodes_nodes_package [OF assms(3,4) ne] l by simp
qed

theorem scanWorkflow_falsy_version_latest_witness:
  "scanWorkflow \<lparr>nodes = Some (NodesArray
       (empty_version_pre @ package_node ''pack-y'' (Some []) # empty_version_post))\<rparr>
     = Inr empty_version_result
   \<and> properties_cnr_id (package_node ''pack-y'' (Some [])) = Some ''pack-y''
   \<and> ''pack-y'' \<noteq> [] \<and> ''pack-y'' \<noteq> ''comfy-core''
   \<and> \<not> truthy_str (properties_ver (package_node ''pack-y'' (Some [])))
   \<and> list_all (\<lambda>m. properties_cnr_id m \<noteq> Some ''pack-y'') empty_version_post
   \<and> filter (\<lambda>e. node e = ''pack-y'') (custom_nodes empty_version_result)
       = [\<lparr> node = ''pack-y'', version = ''latest'', available = None \<rparr>]"
proof -
  have scan: "scanWorkflow \<lparr>nodes = Some (NodesArray
       (empty_version_pre @ package_node ''pack-y'' (Some []) # empty_version_post))\<rparr>
     = Inr empty_version_result"
    by code_simp
  have h: "properties_cnr_id (package_node ''pack-y'' (Some [])) = Some ''pack-y''"
    "''pack-y'' \<noteq> []" "''pack-y'' \<noteq> ''comfy-core''"
    "\<not> truthy_str (properties_ver (package_node ''pack-y'' (Some [])))"
    "list_all (\<lambda>m. properties_cnr_id m \<noteq> Some ''pack-y'') empty_version_post"
    by (simp_all add: properties_cnr_id_def properties_ver_def package_node_def
        truthy_str_def empty_version_post_def)
  from scanWorkflow_falsy_version_latest [OF scan h] scan h show ?thesis by simp
qed

subsection \<open>Widget values and the two encodings\<close>

text \<open>
  C3, as the claim states it, fails. The number 0 and the boolean \<open>false\<close> are present
  at index 0 and are not the empty string, and neither contributes: the test
  \<open>value && value !== ''\<close> lets truthy values pass only. The empty array is present
  and is not the empty string; \<open>String\<close> prints it as the empty string, which
  \<open>mergeArrays\<close> drops from \<open>vae\<close> and which stays in \<open>upscale_models\<close>, a category
  that is not merged. For an object with a key \<open>toString\<close> of its own \<open>String\<close> throws,
  and the scan returns no manifest.
\<close>

theorem scanWorkflow_zero_and_false_dropped:
  "widget_value (loader ''UpscaleModelLoader'' [zero]) 0 = Some zero
   \<and> String zero = Inr ''0''
   \<and> widget_value (loader ''UpscaleModelLoader'' [JBool False]) 0 = Some (JBool False)
   \<and> scanWorkflow \<lparr>nodes = Some (NodesArray falsy_widgets)\<rparr> = Inr empty_manifest
   \<and> widget_value (loader ''VAELoader'' [JArr []]) 0 = Some (JArr [])
   \<and> scanWorkflow \<lparr>nodes = Some (NodesArray [loader ''VAELoader'' [JArr []]])\<rparr>
       = Inr empty_manifest
   \<and> scanWorkflow \<lparr>nodes = Some (NodesArray [loader ''UpscaleModelLoader'' [JArr []]])\<rparr>
       = Inr (empty_manifest
           \<lparr> models := (models empty_manifest) \<lparr> upscale_models := [[]] \<rparr> \<rparr>)
   \<and> widget_value (loader ''UpscaleModelLoader'' [own_toString]) 0 = Some own_toString
   \<and> scanWorkflow \<lparr>nodes = Some (NodesArray [loader ''UpscaleModelLoader'' [own_toString]])\<rparr>
       = Inl TypeError"
proof -
  have "scanWorkflow \<lparr>nodes = Some (NodesArray falsy_widgets)\<rparr> = Inr empty_manifest"
    by code_simp
  moreover have "scanWorkflow \<lparr>nodes = Some (NodesArray [loader ''VAELoader'' [JArr []]])\<rparr>
       = Inr empty_manifest"
    by code_simp
  moreover have
    "scanWorkflow \<lparr>nodes = Some (NodesArray [loader ''UpscaleModelLoader'' [JArr []]])\<rparr>
       = Inr (empty_manifest
           \<lparr> models := (models empty_manifest) \<lparr> upscale_models := [[]] \<rparr> \<rparr>)"
    by code_simp
  moreover have
    "scanWorkflow \<lparr>nodes = Some (NodesArray [loader ''UpscaleModelLoader'' [own_toString]])\<rparr>
       = Inl TypeError"
    by code_simp
  ultimately show ?thesis by (simp add: widget_value_def loader_def zero_def)
qed

text \<open>
  C3, amended. In a manifest that a scan of an array of nodes returns, a string
  belongs to a category exactly when a node whose type is one of the aliases of the
  category holds at index 0 a value that is included, that is present and not \<open>null\<close>,
  \<open>false\<close>, the number zero or the empty string, and that \<open>String\<close> prints as this
  string, which is not the empty string if \<open>mergeArrays\<close> puts the category together;
  or when the \<open>properties.models\<close> source of the category supplies the string as a
  name that is not empty. So the value of a node contributes exactly when it is
  included (and, in a merged category, does not print as the empty string), and
  contributes what \<open>String\<close> prints; 0 and \<open>false\<close> contribute nothing.
\<close>

theorem scanWorkflow_category_members:
  assumes "scanWorkflow \<lparr>nodes = Some (NodesArray ns)\<rparr> = Inr r"
  shows "(s \<in> set (category_of c (models r))) =
     ((\<exists>n\<in>set ns. type n \<in> Some ` set (positional_types c)
         \<and> (\<exists>v. widget_value n 0 = Some v \<and> included v \<and> String v = Inr s \<and> kept c s))
      \<or> (\<exists>(ty, dir)\<in>set (property_source c). s \<in> set (model_names ns ty dir) \<and> s \<noteq> []))"
  unfolding category_set [OF assms] set_positional_strings by blast

theorem scanWorkflow_category_members_witness:
  "scanWorkflow \<lparr>nodes = Some (NodesArray mixed_widgets)\<rparr> = Inr mixed_result
   \<and> ''true'' \<in> set (category_of Upscale_models (models mixed_result))
   \<and> (\<exists>n\<in>set mixed_widgets. type n \<in> Some ` set (positional_types Upscale_models)
        \<and> (\<exists>v. widget_value n 0 = Some v \<and> included v \<and> String v = Inr ''true''
             \<and> kept Upscale_models ''true''))
   \<and> ''0'' \<notin> set (category_of Upscale_models (models mixed_result))
   \<and> [] \<in> set (category_of Upscale_models (models mixed_result))
   \<and> [] \<notin> set (category_of Vae (models mixed_result))"
proof -
  have h: "scanWorkflow \<lparr>nodes = Some (NodesArray mixed_widgets)\<rparr> = Inr mixed_result"
    by code_simp
  have m: "''true'' \<in> set (category_of Upscale_models (models mixed_result))"
    "''0'' \<notin> set (category_of Upscale_models (models mixed_result))"
    "[] \<in> set (category_of Upscale_models (models mixed_result))"
    "[] \<notin> set (category_of Vae (models mixed_result))"
    by (simp_all add: mixed_result_def empty_manifest_def)
  from scanWorkflow_category_members [OF h, of "''true''" Upscale_models] m(1)
  have "\<exists>n\<in>set mixed_widgets. type n \<in> Some ` set (positional_types Upscale_models)
        \<and> (\<exists>v. widget_value n 0 = Some v \<and> included v \<and> String v = Inr ''true''
             \<and> kept Upscale_models ''true'')"
    by simp
  with h m show ?thesis by (simp only: simp_thms)
qed

lemma sorted_unique_eq: "sorted_unique xs \<Longrightarrow> xs = sorted_list_of_set (set xs)"
  by (simp add: sorted_unique_def sorted_list_of_set.idem_if_sorted_distinct)

lemma category_sorted_list:
  assumes "scanWorkflow \<lparr>nodes = Some (NodesArray ns)\<rparr> = Inr r"
  shows "category_of c (models r) = sorted_list_of_set (set (category_of c (models r)))"
  using all_sorted_unique_array [OF assms]
  by (cases c) (simp_all add: all_sorted_unique_def sorted_unique_eq [symmetric])

text \<open>
  C7, as the claim states it, fails: a checkpoint loader whose value at index 0 is the
  number 0 supplies nothing, and neither does one whose value is the empty array,
  which \<open>String\<close> prints as the empty string. For an object with a key \<open>toString\<close> of
  its own the scan throws.
\<close>

theorem scanWorkflow_checkpoints_drops_values:
  "widget_value (loader ''CheckpointLoader'' [zero]) 0 = Some zero
   \<and> scanWorkflow \<lparr>nodes = Some (NodesArray [loader ''CheckpointLoader'' [zero]])\<rparr>
       = Inr empty_manifest
   \<and> widget_value (loader ''LoadCheckpoint'' [JArr []]) 0 = Some (JArr [])
   \<and> String (JArr []) = Inr []
   \<and> scanWorkflow \<lparr>nodes = Some (NodesArray [loader ''LoadCheckpoint'' [JArr []]])\<rparr>
       = Inr empty_manifest
   \<and> scanWorkflow \<lparr>nodes = Some (NodesArray [loader ''CheckpointLoaderSimple'' [own_toString]])\<rparr>
       = Inl TypeError"
proof -
  have "scanWorkflow \<lparr>nodes = Some (NodesArray [loader ''CheckpointLoader'' [zero]])\<rparr>
       = Inr empty_manifest"
    by code_simp
  moreover have
    "scanWorkflow \<lparr>nodes = Some (NodesArray [loader ''LoadCheckpoint'' [JArr []]])\<rparr>
       = Inr empty_manifest"
    by code_simp
  moreover have
    "scanWorkflow \<lparr>nodes = Some (NodesArray [loader ''CheckpointLoaderSimple'' [own_toString]])\<rparr>
       = Inl TypeError"
    by code_simp
  ultimately show ?thesis by (simp add: widget_value_def loader_def)
qed

text \<open>
  C7, amended. In a manifest that a scan returns, the checkpoints category is the
  sorted list, without duplicates and without the empty string, of what \<open>String\<close>
  prints for the included values (present and not \<open>null\<close>, \<open>false\<close>, the number zero or
  the empty string) that the nodes of the three checkpoint loader types hold at index
  0. Two loaders of different types with \<open>a.safetensors\<close> and \<open>b.safetensors\<close> give
  both names, in this order.
\<close>

theorem scanWorkflow_checkpoints_union:
  assumes "scanWorkflow \<lparr>nodes = Some (NodesArray ns)\<rparr> = Inr r"
  shows "checkpoints (models r) =
     sorted_list_of_set
       (set (positional_strings ns
          [''CheckpointLoaderSimple'', ''CheckpointLoader'', ''LoadCheckpoint'']) - {[]})"
proof -
  have "set (checkpoints (models r)) =
      set (positional_strings ns
          [''CheckpointLoaderSimple'', ''CheckpointLoader'', ''LoadCheckpoint'']) - {[]}"
    using category_set [OF assms, of Checkpoints] by (auto simp: kept_def)
  with category_sorted_list [OF assms, of Checkpoints] show ?thesis by simp
qed

theorem scanWorkflow_checkpoints_union_witness:
  "scanWorkflow \<lparr>nodes = Some (NodesArray alias_example)\<rparr> = Inr alias_result
   \<and> checkpoints (models alias_result) = [''a.safetensors'', ''b.safetensors'']
   \<and> sorted_list_of_set
       (set (positional_strings alias_example
          [''CheckpointLoaderSimple'', ''CheckpointLoader'', ''LoadCheckpoint'']) - {[]})
     = [''a.safetensors'', ''b.safetensors'']"
proof -
  have h: "scanWorkflow \<lparr>nodes = Some (NodesArray alias_example)\<rparr> = Inr alias_result"
    by code_simp
  have c: "checkpoints (models alias_result) = [''a.safetensors'', ''b.safetensors'']"
    by (simp add: alias_result_def)
  from scanWorkflow_checkpoints_union [OF h] h c show ?thesis by simp
qed

text \<open>
  C6, as the claim states it, fails: a \<open>VAELoader\<close> node whose value at index 0 is the
  number 0 supplies nothing, nor does one whose value is the array \<open>[null]\<close>, which
  \<open>String\<close> prints as the empty string, nor an entry of \<open>properties.models\<close> with
  directory \<open>vae\<close> whose name is the empty string. For an object with a key
  \<open>toString\<close> of its own the scan throws.
\<close>

theorem scanWorkflow_vae_drops_values:
  "widget_value (loader ''VAELoader'' [zero]) 0 = Some zero
   \<and> scanWorkflow \<lparr>nodes = Some (NodesArray [loader ''VAELoader'' [zero]])\<rparr>
       = Inr empty_manifest
   \<and> widget_value (loader ''VAELoader'' [JArr [JNull]]) 0 = Some (JArr [JNull])
   \<and> String (JArr [JNull]) = Inr []
   \<and> scanWorkflow \<lparr>nodes = Some (NodesArray [loader ''VAELoader'' [JArr [JNull]]])\<rparr>
       = Inr empty_manifest
   \<and> scanWorkflow \<lparr>nodes = Some (NodesArray [empty_name_example])\<rparr> = Inr empty_manifest
   \<and> scanWorkflow \<lparr>nodes = Some (NodesArray [loader ''VAELoader'' [own_toString]])\<rparr>
       = Inl TypeError"
proof -
  have "scanWorkflow \<lparr>nodes = Some (NodesArray [loader ''VAELoader'' [zero]])\<rparr>
       = Inr empty_manifest"
    by code_simp
  moreover have
    "scanWorkflow \<lparr>nodes = Some (NodesArray [loader ''VAELoader'' [JArr [JNull]]])\<rparr>
       = Inr empty_manifest"
    by code_simp
  moreover have
    "scanWorkflow \<lparr>nodes = Some (NodesArray [empty_name_example])\<rparr> = Inr empty_manifest"
    by code_simp
  moreover have
    "scanWorkflow \<lparr>nodes = Some (NodesArray [loader ''VAELoader'' [own_toString]])\<rparr>
       = Inl TypeError"
    by code_simp
  ultimately show ?thesis by (simp add: widget_value_def loader_def)
qed

text \<open>
  C6, amended. In a manifest that a scan returns, the vae category is the sorted list,
  without duplicates and without the empty string, of the union of the two encodings:
  what \<open>String\<close> prints for the included values (present and not \<open>null\<close>, \<open>false\<close>, the
  number zero or the empty string) that \<open>VAELoader\<close> nodes hold at index 0, and the
  names of the entries of \<open>properties.models\<close> of \<open>VAELoader\<close> nodes whose directory is
  \<open>vae\<close>. One loader with \<open>v1.safetensors\<close> at index 0 and one with an entry
  \<open>v2.safetensors\<close> give both names, in this order.
\<close>

theorem scanWorkflow_vae_union:
  assumes "scanWorkflow \<lparr>nodes = Some (NodesArray ns)\<rparr> = Inr r"
  shows "vae (models r) =
     sorted_list_of_set
       ((set (positional_strings ns [''VAELoader''])
         \<union> set (model_names ns ''VAELoader'' ''vae'')) - {[]})"
proof -
  have "set (vae (models r)) =
      (set (positional_strings ns [''VAELoader''])
         \<union> set (model_names ns ''VAELoader'' ''vae'')) - {[]}"
    using category_set [OF assms, of Vae] by (auto simp: kept_def)
  with category_sorted_list [OF assms, of Vae] show ?thesis by simp
qed

theorem scanWorkflow_vae_union_witness:
  "scanWorkflow \<lparr>nodes = Some (NodesArray dual_example)\<rparr> = Inr dual_result
   \<and> vae (models dual_result) = [''v1.safetensors'', ''v2.safetensors'']
   \<and> sorted_list_of_set
       ((set (positional_strings dual_example [''VAELoader''])
         \<union> set (model_names dual_example ''VAELoader'' ''vae'')) - {[]})
     = [''v1.safetensors'', ''v2.safetensors'']"
proof -
  have h: "scanWorkflow \<lparr>nodes = Some (NodesArray dual_example)\<rparr> = Inr dual_result"
    by code_simp
  have c: "vae (models dual_result) = [''v1.safetensors'', ''v2.safetensors'']"
    by (simp add: dual_result_def)
  from scanWorkflow_vae_union [OF h] h c show ?thesis by simp
qed

section \<open>The scanner on the store refines the scanner on values\<close>

subsection \<open>Stores that only grow\<close>

lemma extends_iff: "extends s t = (\<exists>ext. t = s @ ext)"
proof
  assume "extends s t"
  then have "t = s @ drop (length s) t"
    by (metis append_take_drop_id extends_def)
  then show "\<exists>ext. t = s @ ext" ..
next
  assume "\<exists>ext. t = s @ ext"
  then show "extends s t" by (auto simp: extends_def)
qed

lemma extends_refl: "extends s s"
  by (simp add: extends_def)

lemma extends_append: "extends s (s @ ext)"
  by (simp add: extends_def)

lemma extends_trans: "extends s t \<Longrightarrow> extends t u \<Longrightarrow> extends s u"
  by (auto simp: extends_iff)

lemma extends_length: "extends s t \<Longrightarrow> length s \<le> length t"
  by (simp add: extends_def)

lemma extends_nth: "extends s t \<Longrightarrow> a < length s \<Longrightarrow> t ! a = s ! a"
  by (auto simp: extends_iff nth_append)

lemma extends_load: "extends s t \<Longrightarrow> a < length s \<Longrightarrow> load t a = load s a"
  by (auto simp: extends_iff load_def nth_append)

lemma holds_extends: "holds s a xs \<Longrightarrow> extends s t \<Longrightarrow> holds t a xs"
  using extends_nth [of s t a] by (auto simp: holds_def extends_def)

lemma holds_load: "holds s a xs \<Longrightarrow> load s a = xs"
  by (simp add: holds_def load_def)

lemma extends_update: "extends s t \<Longrightarrow> length s \<le> a \<Longrightarrow> extends s (t[a := xs])"
  by (auto simp: extends_iff list_update_append)

lemma array_ok_extends: "array_ok s p r \<Longrightarrow> extends s t \<Longrightarrow> array_ok t p r"
  using extends_nth [of s t] by (auto simp: array_ok_def extends_def split: option.splits)

lemma node_ok_extends: "node_ok s e \<Longrightarrow> extends s t \<Longrightarrow> node_ok t e"
  by (auto simp: node_ok_def array_ok_extends split: elem.splits option.splits)

lemma array_ok_load: "array_ok s p (Some a) \<Longrightarrow> extends s t \<Longrightarrow> load t a = load s a"
  by (simp add: array_ok_def extends_load)

lemma array_ok_map_load:
  "array_ok s p r \<Longrightarrow> extends s t \<Longrightarrow>
   map_option (\<lambda>a. f (load t a)) r = map_option (\<lambda>a. f (load s a)) r"
  by (cases r) (simp_all add: array_ok_load)

lemma abs_elem_extends: "node_ok s e \<Longrightarrow> extends s t \<Longrightarrow> abs_elem t e = abs_elem s e"
  by (auto simp: node_ok_def abs_elem_def abs_node_def array_ok_map_load
      split: elem.splits option.splits)

lemma input_ok_extends:
  assumes "input_ok s w" "extends s t"
  shows "input_ok t w" and "abs_workflow t w = abs_workflow s w"
proof -
  show "input_ok t w"
  proof (cases "h_nodes w")
    case None
    then show ?thesis by (simp add: input_ok_def array_ok_def)
  next
    case (Some a)
    with assms have a: "a < length s" and all: "list_all (node_ok s) (s ! a)"
      by (simp_all add: input_ok_def array_ok_def)
    from a assms(2) have "t ! a = s ! a" "a < length t"
      by (auto simp: extends_nth extends_def)
    moreover from all have "list_all (node_ok t) (s ! a)"
      using node_ok_extends [OF _ assms(2)] by (auto simp: list_all_iff)
    ultimately show ?thesis using Some by (simp add: input_ok_def array_ok_def)
  qed
  show "abs_workflow t w = abs_workflow s w"
  proof (cases "h_nodes w")
    case None
    then show ?thesis by (simp add: abs_workflow_def)
  next
    case (Some a)
    with assms have a: "a < length s" and all: "list_all (node_ok s) (s ! a)"
      by (simp_all add: input_ok_def array_ok_def)
    from a assms(2) have l: "load t a = load s a" by (rule extends_load [rotated])
    have "map (abs_elem t) (load s a) = map (abs_elem s) (load s a)"
      using all a abs_elem_extends [OF _ assms(2)]
      by (auto simp: list_all_iff load_def)
    with l Some show ?thesis by (simp add: abs_workflow_def)
  qed
qed

subsection \<open>\<open>extractModels\<close> on the store\<close>

lemma returned_pair [simp]: "returned (x, s) = (Inr x, s)"
  by (simp add: returned_def)

lemma h_bind_Inr [simp]: "h_bind (Inr x, s) f = f x s"
  by (simp add: h_bind_def)

lemma h_bind_Inl [simp]: "h_bind (Inl e, s) f = (Inl e, s)"
  by (simp add: h_bind_def)

lemma sequence_results_bind_map:
  "sequence_results (map (\<lambda>x. bind (f x) (\<lambda>v. Inr (g v))) xs)
     = bind (sequence_results (map f xs)) (\<lambda>vs. Inr (map g vs))"
  by (induction xs) (auto simp: bind_def split: sum.splits)

lemma sequence_results_map_Inr: "sequence_results (map (\<lambda>x. Inr (g x)) xs) = Inr (map g xs)"
  by (induction xs) simp_all

lemma filter_ENull_map:
  "filter (\<lambda>e. e \<noteq> ENull) (map string_or_null vs) = map EStr (non_null vs)"
  by (induction vs)
    (auto simp: string_or_null_def non_null_def List.map_filter_simps split: option.splits)

lemma foldl_set_add_map:
  "inj f \<Longrightarrow> foldl set_add (map f acc) (map f xs) = map f (foldl set_add acc xs)"
proof (induction xs arbitrary: acc)
  case Nil
  then show ?case by simp
next
  case (Cons x xs)
  have "set_add (map f acc) (f x) = map f (set_add acc x)"
    using Cons.prems by (auto simp: set_add_def inj_def)
  with Cons show ?case by simp
qed

lemma new_Set_map: "inj f \<Longrightarrow> new_Set (map f xs) = map f (new_Set xs)"
  using foldl_set_add_map [of f "[]" xs] by (simp add: new_Set_def)

lemma inj_EStr: "inj EStr"
  by (simp add: inj_def)

lemma inj_ECustom: "inj ECustom"
  by (simp add: inj_def)

lemma insort_key_EStr:
  "insort_key elem_string (EStr x) (map EStr xs) = map EStr (insort x xs)"
  by (induction xs) (auto simp: elem_string_def)

lemma sort_key_EStr: "sort_key elem_string (map EStr xs) = map EStr (sort xs)"
  by (induction xs) (auto simp: insort_key_EStr)

lemma map_filter_filter_map:
  "List.map_filter g (filter P (map f xs))
     = List.map_filter (\<lambda>x. g (f x)) (filter (\<lambda>x. P (f x)) xs)"
  by (induction xs) (auto split: option.splits)

lemma map_filter_cong:
  "(\<And>x. x \<in> set xs \<Longrightarrow> f x = g x) \<Longrightarrow> List.map_filter f xs = List.map_filter g xs"
  by (induction xs) (auto split: option.splits)

lemma elem_type_abs: "elem_type e = type (abs_elem s e)"
  by (simp add: elem_type_def abs_elem_def abs_node_def split: elem.splits)

lemma elem_widget_abs:
  assumes "node_ok s e" "extends s t"
  shows "elem_widget t e i = widget_value (abs_elem s e) i"
proof -
  from assms(1) obtain n where e: "e = ENode n" and w: "array_ok s is_value (h_widgets_values n)"
    by (auto simp: node_ok_def split: elem.splits)
  show ?thesis
  proof (cases "h_widgets_values n")
    case None
    with e show ?thesis
      by (simp add: elem_widget_def widget_value_def abs_elem_def abs_node_def)
  next
    case (Some wa)
    with w have wa: "wa < length s" and vals: "list_all is_value (s ! wa)"
      by (simp_all add: array_ok_def)
    from wa have "load s wa = s ! wa" by (simp add: load_def)
    with wa assms(2) have l: "load t wa = s ! wa" "load s wa = s ! wa"
      by (simp_all add: extends_load)
    have "i < length (s ! wa) \<Longrightarrow>
        (case (s ! wa) ! i of EValue v \<Rightarrow> Some v | _ \<Rightarrow> None) = Some (elem_value ((s ! wa) ! i))"
      using vals by (auto simp: list_all_length is_value_def elem_value_def split: elem.splits)
    with e Some l show ?thesis
      by (simp add: elem_widget_def widget_value_def abs_elem_def abs_node_def)
  qed
qed

lemma input_ok_nodes:
  "input_ok s w \<Longrightarrow> h_nodes w = Some na \<Longrightarrow>
   na < length s \<and> (\<forall>e\<in>set (s ! na). node_ok s e)
   \<and> abs_workflow s w = \<lparr>nodes = Some (NodesArray (map (abs_elem s) (s ! na)))\<rparr>"
  by (simp add: input_ok_def array_ok_def abs_workflow_def load_def list_all_iff)

lemma input_ok_absent:
  "h_nodes w = None \<Longrightarrow> abs_workflow s w = \<lparr>nodes = None\<rparr>"
  by (simp add: abs_workflow_def)

lemma alloc_holds: "alloc xs s = (a, t) \<Longrightarrow> extends s t \<and> holds t a xs"
  by (auto simp: alloc_def extends_def holds_def)

lemma h_extractModels_correct:
  assumes ok: "input_ok s w"
    and run: "h_extractModels w ty i s = (r, t)"
  shows "extends s t
     \<and> (case r of
          Inl e \<Rightarrow> extractModels (abs_workflow s w) ty i = Inl e
        | Inr a \<Rightarrow> \<exists>xs. extractModels (abs_workflow s w) ty i = Inr xs
                      \<and> holds t a (map EStr xs))"
proof (cases "h_nodes w")
  case None
  have "extractModels (abs_workflow s w) ty i = Inr []"
    by (simp add: input_ok_absent [OF None] extractModels_no_nodes no_nodes_def)
  with None run show ?thesis
    by (auto simp: h_extractModels_def alloc_def extends_def holds_def)
next
  case (Some na)
  from input_ok_nodes [OF ok Some]
  have na: "na < length s" and nodes: "\<forall>e\<in>set (s ! na). node_ok s e"
    and absw: "abs_workflow s w = \<lparr>nodes = Some (NodesArray (map (abs_elem s) (s ! na)))\<rparr>"
    by simp_all
  let ?matching = "filter (\<lambda>e. elem_type e = Some ty) (s ! na)"
  let ?f = "\<lambda>e. widget_string (widget_value (abs_elem s e) i)"
  let ?s1 = "s @ [?matching]"
  have w: "\<And>e. e \<in> set ?matching \<Longrightarrow> elem_widget ?s1 e i = widget_value (abs_elem s e) i"
    using nodes elem_widget_abs [OF _ extends_append] by simp
  have cb: "map (\<lambda>e. widget_string (elem_widget ?s1 e i)) ?matching = map ?f ?matching"
    by (rule map_cong) (simp_all add: w)
  have "map (\<lambda>n. widget_string (widget_value n i))
          (filter (\<lambda>n. type n = Some ty) (map (abs_elem s) (s ! na)))
      = map ?f ?matching"
    by (simp add: filter_map comp_def elem_type_abs [of _ s])
  then have pure: "extractModels (abs_workflow s w) ty i
      = bind (sequence_results (map ?f ?matching))
          (\<lambda>mapped. Inr (sort (new_Set (non_null mapped))))"
    by (simp add: absw extractModels_array extractModels_nodes_def)
  show ?thesis
  proof (cases "sequence_results (map ?f ?matching)")
    case (Inl e)
    with run Some na have "r = Inl e" "t = ?s1"
      by (auto simp: h_extractModels_def array_filter_def array_map_def alloc_def load_def
          nth_append cb sequence_results_bind_map)
    with Inl pure show ?thesis by (simp add: extends_append)
  next
    case (Inr vs)
    let ?xs = "sort (new_Set (non_null vs))"
    from run Some na Inr have "t = s @ [?matching, map string_or_null vs,
        map EStr (non_null vs), map EStr ?xs]" and "r = Inr (length s + 3)"
      by (auto simp: h_extractModels_def array_filter_def array_map_def array_from_set_def
          array_sort_def alloc_def store_at_def load_def nth_append cb
          sequence_results_bind_map filter_ENull_map new_Set_map inj_EStr sort_key_EStr
          list_update_append)
    with Inr pure show ?thesis by (simp add: extends_append holds_def nth_append)
  qed
qed

lemma extends_nth_iff:
  "extends s t = (length s \<le> length t \<and> (\<forall>a<length s. t ! a = s ! a))"
proof
  assume "extends s t"
  then show "length s \<le> length t \<and> (\<forall>a<length s. t ! a = s ! a)"
    by (simp add: extends_nth extends_length)
next
  assume r: "length s \<le> length t \<and> (\<forall>a<length s. t ! a = s ! a)"
  then have "take (length s) t = s"
    by (intro nth_equalityI) simp_all
  with r show "extends s t" by (simp add: extends_def)
qed

subsection \<open>mergeArrays\<close>

lemma loads_of_held:
  "list_all2 (\<lambda>a xs. holds s a (map EStr xs)) arrays xss \<Longrightarrow> extends s t \<Longrightarrow>
   map (load t) arrays = map (map EStr) xss"
proof (induction arrays xss rule: list_all2_induct)
  case Nil
  then show ?case by simp
next
  case (Cons a arrays xs xss)
  from Cons.hyps(1) Cons.prems have "holds t a (map EStr xs)"
    by (rule holds_extends)
  then have "load t a = map EStr xs"
    by (rule holds_load)
  with Cons show ?case by simp
qed

lemma filter_nonempty_EStr:
  "filter (\<lambda>item. item \<noteq> EStr []) (map EStr ys) = map EStr (filter (\<lambda>item. item \<noteq> []) ys)"
  by (induction ys) auto

lemma h_mergeArrays_correct:
  assumes held: "list_all2 (\<lambda>a xs. holds s a (map EStr xs)) arrays xss"
    and run: "h_mergeArrays arrays s = (a, t)"
  shows "extends s t \<and> holds t a (map EStr (mergeArrays xss))"
proof -
  let ?s1 = "s @ [map EArr arrays]"
  have "map ((\<lambda>e. case e of EArr b \<Rightarrow> load ?s1 b | _ \<Rightarrow> [e]) \<circ> EArr) arrays
      = map (load ?s1) arrays"
    by (simp add: comp_def)
  also have "\<dots> = map (map EStr) xss"
    using held extends_append by (rule loads_of_held)
  finally have flat: "concat (map ((\<lambda>e. case e of EArr b \<Rightarrow> load ?s1 b | _ \<Rightarrow> [e])
      \<circ> EArr) arrays) = map EStr (concat xss)"
    by (simp add: map_concat)
  from run have "t = s @ [map EArr arrays, map EStr (concat xss),
        map EStr (filter (\<lambda>item. item \<noteq> []) (concat xss)),
        map EStr (mergeArrays xss)]" and "a = length s + 3"
    by (simp_all add: h_mergeArrays_def array_flat_def array_filter_def array_from_set_def
        array_sort_def alloc_def store_at_def load_def nth_append flat filter_nonempty_EStr
        new_Set_map inj_EStr sort_key_EStr mergeArrays_def list_update_append)
  then show ?thesis
    by (simp add: extends_append holds_def nth_append)
qed

subsection \<open>extractCustomNodes\<close>

lemma elem_cnr_id_abs: "elem_cnr_id e = properties_cnr_id (abs_elem s e)"
  by (simp add: elem_cnr_id_def properties_cnr_id_def abs_elem_def abs_node_def
      split: elem.splits option.splits)

lemma elem_ver_abs: "elem_ver e = properties_ver (abs_elem s e)"
  by (simp add: elem_ver_def properties_ver_def abs_elem_def abs_node_def
      split: elem.splits option.splits)

lemma entries_of_custom:
  "List.map_filter (\<lambda>e. case e of EEntry k v \<Rightarrow> Some (k, v) | _ \<Rightarrow> None)
     (map ((\<lambda>e. case e of ECustom item \<Rightarrow> EEntry (node item) item | _ \<Rightarrow> e)
           \<circ> (\<lambda>e. ECustom (f e))) xs)
   = map ((\<lambda>item. (node item, item)) \<circ> f) xs"
  by (induction xs) auto

lemma h_extractCustomNodes_correct:
  assumes ok: "input_ok s w"
    and run: "h_extractCustomNodes w s = (r, t)"
  shows "\<exists>a cs. r = Inr a \<and> extractCustomNodes (abs_workflow s w) = Inr cs
           \<and> extends s t \<and> holds t a (map ECustom cs)"
proof (cases "h_nodes w")
  case None
  have "extractCustomNodes (abs_workflow s w) = Inr []"
    by (simp add: input_ok_absent [OF None] extractCustomNodes_no_nodes no_nodes_def)
  with None run show ?thesis
    by (auto simp: h_extractCustomNodes_def alloc_def extends_def holds_def)
next
  case (Some na)
  from input_ok_nodes [OF ok Some]
  have na: "na < length s"
    and absw: "abs_workflow s w = \<lparr>nodes = Some (NodesArray (map (abs_elem s) (s ! na)))\<rparr>"
    by simp_all
  let ?custom = "filter (\<lambda>e. is_custom (abs_elem s e)) (s ! na)"
  let ?items = "map (\<lambda>e. ECustom (to_custom (abs_elem s e))) ?custom"
  let ?entries = "map (\<lambda>e. case e of ECustom item \<Rightarrow> EEntry (node item) item | _ \<Rightarrow> e) ?items"
  let ?cs = "map_values (new_Map (map (\<lambda>item. (node item, item))
      (map (\<lambda>e. to_custom (abs_elem s e)) ?custom)))"
  have cs: "extractCustomNodes (abs_workflow s w) = Inr ?cs"
    using absw
    by (simp add: extractCustomNodes_array extractCustomNodes_nodes_def filter_map comp_def)
  have proj: "(\<lambda>e. ECustom \<lparr> node = the (elem_cnr_id e), version = ver_or_latest (elem_ver e),
      available = None \<rparr>) = (\<lambda>e. ECustom (to_custom (abs_elem s e)))"
    by (simp add: fun_eq_iff to_custom_def elem_cnr_id_abs [of _ s] elem_ver_abs [of _ s])
  have flt: "(\<lambda>e. truthy_str (elem_cnr_id e) \<and> elem_cnr_id e \<noteq> Some ''comfy-core'')
      = (\<lambda>e. is_custom (abs_elem s e))"
    by (simp add: fun_eq_iff is_custom_def elem_cnr_id_abs [of _ s])
  from run Some na have "t = s @ [?custom, ?items, ?entries, map ECustom ?cs]"
    and "r = Inr (length s + 3)"
    by (auto simp: h_extractCustomNodes_def array_filter_def array_map_def alloc_def
        load_def nth_append proj flt entries_of_custom sequence_results_map_Inr)
  with cs show ?thesis
    by (simp add: extends_append holds_def nth_append)
qed

subsection \<open>\<open>extractModelsFromProperties\<close> on the store: the two loops\<close>

lemma pushed_names_Cons: "pushed_names (e # es) = pushed_name e @ pushed_names es"
  by (simp add: pushed_names_def)

lemma pushed_names_Nil: "pushed_names [] = []"
  by (simp add: pushed_names_def)

lemma push_step:
  assumes "am < length st"
  shows "push_name am e st = st[am := st ! am @ map EStr (pushed_name e)]"
  using assms
  by (auto simp: push_name_def pushed_name_def array_push_def store_at_def load_def
      split: option.splits)

lemma inner_loop:
  assumes "am < length st" "g < length st" "g \<noteq> am"
  shows "forEach_loop (push_name am) g i k st
         = st[am := st ! am @ map EStr (pushed_names (take k (drop i (st ! g))))]"
  using assms
proof (induction k arbitrary: i st)
  case 0
  then show ?case by (simp add: pushed_names_Nil)
next
  case (Suc k)
  from Suc.prems have lg: "load st g = st ! g" by (simp add: load_def)
  show ?case
  proof (cases "i < length (st ! g)")
    case True
    let ?e = "st ! g ! i"
    let ?st1 = "st[am := st ! am @ map EStr (pushed_name ?e)]"
    have cb: "push_name am ?e st = ?st1"
      using Suc.prems(1) by (rule push_step)
    have p: "am < length ?st1" "g < length ?st1" "?st1 ! g = st ! g"
      "?st1 ! am = st ! am @ map EStr (pushed_name ?e)"
      using Suc.prems by simp_all
    have "forEach_loop (push_name am) g i (Suc k) st
        = forEach_loop (push_name am) g (Suc i) k ?st1"
      using True by (simp add: lg cb)
    also have "\<dots> = ?st1[am := ?st1 ! am
        @ map EStr (pushed_names (take k (drop (Suc i) (?st1 ! g))))]"
      using p(1,2) Suc.prems(3) by (rule Suc.IH)
    also have "\<dots> = st[am := st ! am @ map EStr (pushed_names
        (?e # take k (drop (Suc i) (st ! g))))]"
      by (simp add: p pushed_names_Cons)
    also have "?e # take k (drop (Suc i) (st ! g)) = take (Suc k) (drop i (st ! g))"
      using True by (simp add: Cons_nth_drop_Suc [symmetric])
    finally show ?thesis .
  next
    case False
    then have "forEach_loop (push_name am) g i (Suc k) st
        = forEach_loop (push_name am) g (Suc i) k st"
      by (simp add: lg)
    also have "\<dots> = st[am := st ! am @ map EStr (pushed_names (take k (drop (Suc i) (st ! g))))]"
      using Suc.prems by (rule Suc.IH)
    finally show ?thesis using False by simp
  qed
qed

lemma outer_step:
  assumes "am < length st" and "\<And>ma. elem_models n = Some ma \<Longrightarrow> ma < length st"
  shows "collect_names am dir n st
         = (case elem_models n of
              None \<Rightarrow> st
            | Some ma \<Rightarrow>
                st[am := st ! am @ map EStr (node_names st dir n)]
                @ [filter (\<lambda>m. elem_directory m = Some dir \<and> truthy_str (elem_name m))
                     (st ! ma)])"
proof (cases "elem_models n")
  case None
  then show ?thesis by (simp add: collect_names_def)
next
  case (Some ma)
  let ?wl = "filter (\<lambda>m. elem_directory m = Some dir \<and> truthy_str (elem_name m)) (st ! ma)"
  from assms(2) Some have ma: "ma < length st" by simp
  have "forEach_loop (push_name am) (length st) 0 (length ?wl) (st @ [?wl])
      = (st @ [?wl])[am := (st @ [?wl]) ! am
          @ map EStr (pushed_names (take (length ?wl) (drop 0 ((st @ [?wl]) ! length st))))]"
    using assms(1) by (intro inner_loop) simp_all
  then show ?thesis
    using Some ma assms(1)
    by (simp add: collect_names_def array_filter_def array_forEach_def alloc_def load_def
        nth_append node_names_def list_update_append)
qed

text \<open>The effect of one call of the outer callback, and of the outer loop.\<close>

lemma outer_step_frame:
  assumes am: "am < length st" and lo: "length s0 \<le> am"
    and same: "\<forall>a<length s0. st ! a = s0 ! a"
    and ma: "\<And>ma. elem_models n = Some ma \<Longrightarrow> ma < length s0"
  shows "length st \<le> length (collect_names am dir n st)
    \<and> (\<forall>a<length st. a \<noteq> am \<longrightarrow> collect_names am dir n st ! a = st ! a)
    \<and> collect_names am dir n st ! am = st ! am @ map EStr (node_names s0 dir n)"
proof (cases "elem_models n")
  case None
  then have "collect_names am dir n st = st" by (simp add: collect_names_def)
  with None show ?thesis by (simp add: node_names_def)
next
  case (Some ma')
  with ma have m0: "ma' < length s0" by simp
  with lo am have m: "ma' < length st" by simp
  from m0 same have eq: "st ! ma' = s0 ! ma'" by simp
  have "collect_names am dir n st
      = st[am := st ! am @ map EStr (node_names st dir n)]
        @ [filter (\<lambda>m. elem_directory m = Some dir \<and> truthy_str (elem_name m)) (st ! ma')]"
    using outer_step [of am st n dir] am m Some by simp
  moreover have "node_names st dir n = node_names s0 dir n"
    using Some eq by (simp add: node_names_def)
  ultimately show ?thesis using am by (simp add: nth_append)
qed

lemma outer_loop:
  assumes "am < length st" "f < length st" "f \<noteq> am" "length s0 \<le> am" "length s0 \<le> f"
    and "\<forall>a<length s0. st ! a = s0 ! a"
    and "\<forall>e\<in>set (st ! f). \<forall>ma. elem_models e = Some ma \<longrightarrow> ma < length s0"
  shows "length st \<le> length (forEach_loop (collect_names am dir) f i k st)
    \<and> (\<forall>a<length st. a \<noteq> am \<longrightarrow> forEach_loop (collect_names am dir) f i k st ! a = st ! a)
    \<and> forEach_loop (collect_names am dir) f i k st ! am
        = st ! am @ map EStr (concat (map (node_names s0 dir) (take k (drop i (st ! f)))))"
  using assms
proof (induction k arbitrary: i st)
  case 0
  then show ?case by simp
next
  case (Suc k)
  from Suc.prems have lf: "load st f = st ! f" by (simp add: load_def)
  show ?case
  proof (cases "i < length (st ! f)")
    case True
    let ?e = "st ! f ! i"
    let ?st1 = "collect_names am dir ?e st"
    from True have mem: "?e \<in> set (st ! f)" by simp
    with Suc.prems(7) have ma: "\<And>ma. elem_models ?e = Some ma \<Longrightarrow> ma < length s0"
      by blast
    from outer_step_frame [where dir = dir, OF Suc.prems(1,4,6) ma]
    have len: "length st \<le> length ?st1"
      and fr: "\<forall>a<length st. a \<noteq> am \<longrightarrow> ?st1 ! a = st ! a"
      and acc: "?st1 ! am = st ! am @ map EStr (node_names s0 dir ?e)"
      by simp_all
    from fr Suc.prems have f1: "?st1 ! f = st ! f" by simp
    have pre: "am < length ?st1" "f < length ?st1" "\<forall>a<length s0. ?st1 ! a = s0 ! a"
      "\<forall>e\<in>set (?st1 ! f). \<forall>ma. elem_models e = Some ma \<longrightarrow> ma < length s0"
      using len fr f1 Suc.prems by auto
    note ih = Suc.IH [where i = "Suc i", OF pre(1,2) Suc.prems(3,4,5) pre(3,4)]
    have unf: "forEach_loop (collect_names am dir) f i (Suc k) st
        = forEach_loop (collect_names am dir) f (Suc i) k ?st1"
      using True by (simp add: lf)
    have tk: "take (Suc k) (drop i (st ! f)) = ?e # take k (drop (Suc i) (st ! f))"
      using True by (simp add: Cons_nth_drop_Suc [symmetric])
    show ?thesis
      unfolding unf tk using ih len fr acc f1 by auto
  next
    case False
    have unf: "forEach_loop (collect_names am dir) f i (Suc k) st
        = forEach_loop (collect_names am dir) f (Suc i) k st"
      using False by (simp add: lf)
    show ?thesis
      unfolding unf using Suc.IH [where i = "Suc i", OF Suc.prems] False by simp
  qed
qed

lemma names_of_models:
  "list_all is_model xs \<Longrightarrow>
   pushed_names (filter (\<lambda>m. elem_directory m = Some dir \<and> truthy_str (elem_name m)) xs)
     = List.map_filter
         (\<lambda>m. if directory m = Some dir \<and> truthy_str (name m) then name m else None)
         (map elem_model xs)"
proof (induction xs)
  case Nil
  then show ?case by (simp add: pushed_names_Nil)
next
  case (Cons x xs)
  from Cons.prems obtain m where x: "x = EModel m"
    by (auto simp: is_model_def split: elem.splits)
  from Cons have ih: "pushed_names
      (filter (\<lambda>m. elem_directory m = Some dir \<and> truthy_str (elem_name m)) xs)
     = List.map_filter
         (\<lambda>m. if directory m = Some dir \<and> truthy_str (name m) then name m else None)
         (map elem_model xs)"
    by simp
  have hd: "elem_directory x = directory m" "elem_name x = name m" "elem_model x = m"
    by (simp_all add: x elem_directory_def elem_name_def elem_model_def)
  show ?case
  proof (cases "directory m = Some dir \<and> truthy_str (name m)")
    case True
    then obtain y where y: "name m = Some y" "y \<noteq> []"
      by (auto simp: truthy_str_def split: option.splits)
    then have "pushed_name x = [y]"
      by (simp add: pushed_name_def hd)
    with True y show ?thesis
      by (simp add: hd ih pushed_names_Cons)
  next
    case False
    then have "filter (\<lambda>m. elem_directory m = Some dir \<and> truthy_str (elem_name m)) (x # xs)
        = filter (\<lambda>m. elem_directory m = Some dir \<and> truthy_str (elem_name m)) xs"
      by (auto simp: hd)
    moreover from False have "(if directory m = Some dir \<and> truthy_str (name m)
        then name m else None) = None"
      by auto
    ultimately show ?thesis
      by (simp add: hd ih)
  qed
qed

lemma node_names_abs:
  assumes "node_ok s e"
  shows "node_names s dir e =
     (case properties (abs_elem s e) of
        None \<Rightarrow> []
      | Some p \<Rightarrow>
          (case Properties.models p of
             None \<Rightarrow> []
           | Some ms \<Rightarrow>
               List.map_filter
                 (\<lambda>m. if directory m = Some dir \<and> truthy_str (name m) then name m else None)
                 ms))"
proof -
  from assms obtain n where e: "e = ENode n"
    and p: "case h_properties n of None \<Rightarrow> True | Some p \<Rightarrow> array_ok s is_model (h_models p)"
    by (auto simp: node_ok_def split: elem.splits)
  show ?thesis
  proof (cases "h_properties n")
    case None
    with e show ?thesis
      by (simp add: node_names_def elem_models_def abs_elem_def abs_node_def)
  next
    case (Some hp)
    show ?thesis
    proof (cases "h_models hp")
      case None
      with e Some show ?thesis
        by (simp add: node_names_def elem_models_def abs_elem_def abs_node_def)
    next
      case (Some ma)
      with p \<open>h_properties n = Some hp\<close> have "ma < length s" "list_all is_model (s ! ma)"
        by (simp_all add: array_ok_def)
      with e Some \<open>h_properties n = Some hp\<close> show ?thesis
        by (simp add: node_names_def elem_models_def abs_elem_def abs_node_def load_def
            names_of_models)
    qed
  qed
qed

lemma node_ok_models: "node_ok s e \<Longrightarrow> elem_models e = Some ma \<Longrightarrow> ma < length s"
  by (auto simp: node_ok_def elem_models_def array_ok_def split: elem.splits option.splits)

lemma property_names_abs:
  assumes "\<forall>e\<in>set xs. node_ok s e"
  shows "property_names (map (abs_elem s) xs) ty dir
     = concat (map (node_names s dir) (filter (\<lambda>e. elem_type e = Some ty) xs))"
  using assms
  by (induction xs)
     (simp_all add: property_names_def node_names_abs elem_type_abs [of _ s])

lemma h_extractModelsFromProperties_correct:
  assumes ok: "input_ok s w"
    and run: "h_extractModelsFromProperties w ty dir s = (a, t)"
    and pure: "extractModelsFromProperties (abs_workflow s w) ty dir = Inr xs"
  shows "extends s t \<and> holds t a (map EStr xs)"
proof (cases "h_nodes w")
  case None
  with pure have "xs = []"
    by (simp add: input_ok_absent extractModelsFromProperties_no_nodes no_nodes_def)
  with None run show ?thesis
    using alloc_holds [of "[]" s a t] by (simp add: h_extractModelsFromProperties_def)
next
  case (Some na)
  from input_ok_nodes [OF ok Some]
  have na: "na < length s" and nodes: "\<forall>e\<in>set (s ! na). node_ok s e"
    and absw: "abs_workflow s w = \<lparr>nodes = Some (NodesArray (map (abs_elem s) (s ! na)))\<rparr>"
    by simp_all
  let ?am = "length s"
  let ?f = "Suc (length s)"
  let ?matching = "filter (\<lambda>e. elem_type e = Some ty) (s ! na)"
  let ?s2 = "s @ [[], ?matching]"
  let ?s3 = "forEach_loop (collect_names ?am dir) ?f 0 (length ?matching) ?s2"
  let ?names = "concat (map (node_names s dir) ?matching)"
  have xs: "xs = sort (new_Set ?names)"
    using pure absw nodes
    by (simp add: extractModelsFromProperties_array extractModelsFromProperties_nodes_eq
        property_names_abs)
  have "\<forall>e\<in>set (?s2 ! ?f). \<forall>ma. elem_models e = Some ma \<longrightarrow> ma < length s"
    using nodes node_ok_models by (auto simp: nth_append)
  then have loop: "length ?s2 \<le> length ?s3"
    "\<forall>a<length ?s2. a \<noteq> ?am \<longrightarrow> ?s3 ! a = ?s2 ! a"
    "?s3 ! ?am = ?s2 ! ?am @ map EStr (concat (map (node_names s dir)
        (take (length ?matching) (drop 0 (?s2 ! ?f)))))"
    using outer_loop [of ?am ?s2 ?f s dir 0 "length ?matching"]
    by (simp_all add: nth_append)
  from loop(3) have acc: "?s3 ! ?am = map EStr ?names"
    by (simp add: nth_append)
  from loop(1) have am3: "?am < length ?s3" by simp
  from run Some na have t: "t = ?s3 @ [map EStr xs]" and a: "a = length ?s3"
    using am3
    by (simp_all add: h_extractModelsFromProperties_def array_filter_def array_forEach_def
        array_from_set_def array_sort_def alloc_def store_at_def load_def nth_append acc
        new_Set_map inj_EStr sort_key_EStr xs list_update_append Let_def)
  have "\<forall>b<length s. t ! b = s ! b"
    using loop(1,2) by (simp add: t nth_append)
  moreover have "length s \<le> length t"
    using loop(1) by (simp add: t)
  ultimately have "extends s t"
    by (simp add: extends_nth_iff)
  then show ?thesis
    by (simp add: t a holds_def)
qed

subsection \<open>The whole scan\<close>

lemma scan_inv_start: "input_ok s w \<Longrightarrow> scan_inv s w [] s"
  by (simp add: scan_inv_def extends_refl)

lemma scan_inv_step:
  assumes "scan_inv s0 w hs s" "extends s t" "holds t a xs"
  shows "scan_inv s0 w ((a, xs) # hs) t"
proof -
  from assms(1) have e: "extends s0 s" and ok: "input_ok s w"
    and ab: "abs_workflow s w = abs_workflow s0 w"
    and hs: "list_all (\<lambda>(a, xs). holds s a xs) hs"
    by (simp_all add: scan_inv_def)
  from hs have "list_all (\<lambda>(a, xs). holds t a xs) hs"
    using holds_extends [OF _ assms(2)] by (auto simp: list_all_iff)
  with extends_trans [OF e assms(2)] input_ok_extends [OF ok assms(2)] ab assms(3)
  show ?thesis by (simp add: scan_inv_def)
qed

lemma scan_inv_holds: "scan_inv s0 w hs s \<Longrightarrow> (a, xs) \<in> set hs \<Longrightarrow> holds s a xs"
  by (auto simp: scan_inv_def list_all_iff)

lemma strings_at_holds: "holds s a (map EStr xs) \<Longrightarrow> strings_at s a = xs"
  by (simp add: strings_at_def holds_load elem_string_def comp_def)

lemma custom_at_holds: "holds s a (map ECustom cs) \<Longrightarrow> custom_at s a = cs"
proof -
  have "List.map_filter (\<lambda>e. case e of ECustom c \<Rightarrow> Some c | _ \<Rightarrow> None) (map ECustom cs) = cs"
    by (induction cs) simp_all
  then show "holds s a (map ECustom cs) \<Longrightarrow> custom_at s a = cs"
    by (simp add: custom_at_def holds_load)
qed

lemma abs_workflow_cases:
  "abs_workflow s w = \<lparr>nodes = None\<rparr>
   \<or> (\<exists>ns. abs_workflow s w = \<lparr>nodes = Some (NodesArray ns)\<rparr>)"
  by (cases "h_nodes w") (simp_all add: abs_workflow_def)

lemma extractModelsFromProperties_abs_total:
  "\<exists>xs. extractModelsFromProperties (abs_workflow s w) ty d = Inr xs"
  using abs_workflow_cases [of s w]
  by (auto simp: extractModelsFromProperties_array extractModelsFromProperties_no_nodes
      no_nodes_def)

text \<open>
  One call after the other: each step extends the store and, when it returns, returns
  an array that holds what the corresponding function on values returns for the graph
  read at the start; when it throws, the function on values throws the same error.
\<close>

lemma refines_throw: "extends s0 t \<Longrightarrow> refines s0 (Inl e) (Inl e, t)"
  by (simp add: refines_def outcome_at_def)

lemma refines_extractModels:
  assumes inv: "scan_inv s0 w hs s"
    and k: "\<And>a xs t. scan_inv s0 w ((a, map EStr xs) # hs) t \<Longrightarrow> refines s0 (k xs) (hk a t)"
  shows "refines s0 (bind (extractModels (abs_workflow s0 w) ty i) k)
           (h_bind (h_extractModels w ty i s) hk)"
proof -
  from inv have ok: "input_ok s w" and ab: "abs_workflow s w = abs_workflow s0 w"
    and e0: "extends s0 s"
    by (simp_all add: scan_inv_def)
  obtain r t where run: "h_extractModels w ty i s = (r, t)"
    by (cases "h_extractModels w ty i s")
  from h_extractModels_correct [OF ok run]
  have e: "extends s t"
    and c: "case r of
          Inl e \<Rightarrow> extractModels (abs_workflow s w) ty i = Inl e
        | Inr a \<Rightarrow> \<exists>xs. extractModels (abs_workflow s w) ty i = Inr xs
                      \<and> holds t a (map EStr xs)"
    by simp_all
  show ?thesis
  proof (cases r)
    case (Inl err)
    with c ab have "extractModels (abs_workflow s0 w) ty i = Inl err" by simp
    with Inl run show ?thesis
      using extends_trans [OF e0 e] by (simp add: refines_throw)
  next
    case (Inr a)
    with c ab obtain xs where p: "extractModels (abs_workflow s0 w) ty i = Inr xs"
      and h: "holds t a (map EStr xs)"
      by auto
    from scan_inv_step [OF inv e h] have "refines s0 (k xs) (hk a t)" by (rule k)
    with p Inr run show ?thesis by simp
  qed
qed

lemma refines_extractCustomNodes:
  assumes inv: "scan_inv s0 w hs s"
    and k: "\<And>a cs t. scan_inv s0 w ((a, map ECustom cs) # hs) t
              \<Longrightarrow> refines s0 (k cs) (hk a t)"
  shows "refines s0 (bind (extractCustomNodes (abs_workflow s0 w)) k)
           (h_bind (h_extractCustomNodes w s) hk)"
proof -
  from inv have ok: "input_ok s w" and ab: "abs_workflow s w = abs_workflow s0 w"
    by (simp_all add: scan_inv_def)
  obtain r t where run: "h_extractCustomNodes w s = (r, t)"
    by (cases "h_extractCustomNodes w s")
  from h_extractCustomNodes_correct [OF ok run] ab
  obtain a cs where r: "r = Inr a" and p: "extractCustomNodes (abs_workflow s0 w) = Inr cs"
    and e: "extends s t" and h: "holds t a (map ECustom cs)"
    by auto
  from scan_inv_step [OF inv e h] have "refines s0 (k cs) (hk a t)" by (rule k)
  with p r run show ?thesis by simp
qed

lemma refines_extractModelsFromProperties:
  assumes inv: "scan_inv s0 w hs s"
    and k: "\<And>a xs t. scan_inv s0 w ((a, map EStr xs) # hs) t \<Longrightarrow> refines s0 (k xs) (hk a t)"
  shows "refines s0 (bind (extractModelsFromProperties (abs_workflow s0 w) ty d) k)
           (h_bind (returned (h_extractModelsFromProperties w ty d s)) hk)"
proof -
  from inv have ok: "input_ok s w" and ab: "abs_workflow s w = abs_workflow s0 w"
    by (simp_all add: scan_inv_def)
  obtain a t where run: "h_extractModelsFromProperties w ty d s = (a, t)"
    by (cases "h_extractModelsFromProperties w ty d s")
  obtain xs where p: "extractModelsFromProperties (abs_workflow s w) ty d = Inr xs"
    using extractModelsFromProperties_abs_total by blast
  from h_extractModelsFromProperties_correct [OF ok run p]
  have e: "extends s t" and h: "holds t a (map EStr xs)"
    by simp_all
  from scan_inv_step [OF inv e h] have "refines s0 (k xs) (hk a t)" by (rule k)
  with p ab run show ?thesis by simp
qed

lemma refines_mergeArrays:
  assumes inv: "scan_inv s0 w hs s"
    and held: "list_all2 (\<lambda>a xs. (a, map EStr xs) \<in> set hs) arrays xss"
    and k: "\<And>a t. scan_inv s0 w ((a, map EStr (mergeArrays xss)) # hs) t
              \<Longrightarrow> refines s0 (k (mergeArrays xss)) (hk a t)"
  shows "refines s0 (Let (mergeArrays xss) k) (h_bind (returned (h_mergeArrays arrays s)) hk)"
proof -
  obtain a t where run: "h_mergeArrays arrays s = (a, t)"
    by (cases "h_mergeArrays arrays s")
  from held have "list_all2 (\<lambda>a xs. holds s a (map EStr xs)) arrays xss"
    using scan_inv_holds [OF inv] by (auto elim: list_all2_mono)
  from h_mergeArrays_correct [OF this run]
  have e: "extends s t" and h: "holds t a (map EStr (mergeArrays xss))"
    by simp_all
  from scan_inv_step [OF inv e h] have "refines s0 (k (mergeArrays xss)) (hk a t)" by (rule k)
  with run show ?thesis by (simp add: Let_def)
qed

lemma refines_return:
  assumes inv: "scan_inv s0 w hs t"
    and mc: "(c, map ECustom cs) \<in> set hs"
    and m1: "(a1, map EStr x1) \<in> set hs"
    and m2: "(a2, map EStr x2) \<in> set hs"
    and m3: "(a3, map EStr x3) \<in> set hs"
    and m4: "(a4, map EStr x4) \<in> set hs"
    and m5: "(a5, map EStr x5) \<in> set hs"
    and m6: "(a6, map EStr x6) \<in> set hs"
    and m7: "(a7, map EStr x7) \<in> set hs"
    and m8: "(a8, map EStr x8) \<in> set hs"
    and m9: "(a9, map EStr x9) \<in> set hs"
    and m10: "(a10, map EStr x10) \<in> set hs"
    and m11: "(a11, map EStr x11) \<in> set hs"
    and m12: "(a12, map EStr x12) \<in> set hs"
    and m13: "(a13, map EStr x13) \<in> set hs"
  shows "refines s0
     (Inr \<lparr> models = \<lparr> checkpoints = x1, vae = x2, loras = x3, upscale_models = x4, controlnet = x5, clip = x6, clip_vision = x7, text_encoders = x8, diffusion_models = x9, embedding = x10, style_models = x11, hypernetworks = x12, gligen = x13 \<rparr>,
            custom_nodes = cs, required_models = None \<rparr>)
     (Inr \<lparr> hr_models = \<lparr> hm_checkpoints = a1, hm_vae = a2, hm_loras = a3, hm_upscale_models = a4, hm_controlnet = a5, hm_clip = a6, hm_clip_vision = a7, hm_text_encoders = a8, hm_diffusion_models = a9, hm_embedding = a10, hm_style_models = a11, hm_hypernetworks = a12, hm_gligen = a13 \<rparr>,
            hr_custom_nodes = c \<rparr>, t)"
proof -
  note hold = scan_inv_holds [OF inv]
  have c1: "strings_at u a1 = x1" if "extends t u" for u
    by (rule strings_at_holds, rule holds_extends [OF hold [OF m1] that])
  have c2: "strings_at u a2 = x2" if "extends t u" for u
    by (rule strings_at_holds, rule holds_extends [OF hold [OF m2] that])
  have c3: "strings_at u a3 = x3" if "extends t u" for u
    by (rule strings_at_holds, rule holds_extends [OF hold [OF m3] that])
  have c4: "strings_at u a4 = x4" if "extends t u" for u
    by (rule strings_at_holds, rule holds_extends [OF hold [OF m4] that])
  have c5: "strings_at u a5 = x5" if "extends t u" for u
    by (rule strings_at_holds, rule holds_extends [OF hold [OF m5] that])
  have c6: "strings_at u a6 = x6" if "extends t u" for u
    by (rule strings_at_holds, rule holds_extends [OF hold [OF m6] that])
  have c7: "strings_at u a7 = x7" if "extends t u" for u
    by (rule strings_at_holds, rule holds_extends [OF hold [OF m7] that])
  have c8: "strings_at u a8 = x8" if "extends t u" for u
    by (rule strings_at_holds, rule holds_extends [OF hold [OF m8] that])
  have c9: "strings_at u a9 = x9" if "extends t u" for u
    by (rule strings_at_holds, rule holds_extends [OF hold [OF m9] that])
  have c10: "strings_at u a10 = x10" if "extends t u" for u
    by (rule strings_at_holds, rule holds_extends [OF hold [OF m10] that])
  have c11: "strings_at u a11 = x11" if "extends t u" for u
    by (rule strings_at_holds, rule holds_extends [OF hold [OF m11] that])
  have c12: "strings_at u a12 = x12" if "extends t u" for u
    by (rule strings_at_holds, rule holds_extends [OF hold [OF m12] that])
  have c13: "strings_at u a13 = x13" if "extends t u" for u
    by (rule strings_at_holds, rule holds_extends [OF hold [OF m13] that])
  have cc: "custom_at u c = cs" if "extends t u" for u
    by (rule custom_at_holds, rule holds_extends [OF hold [OF mc] that])
  from inv have "extends s0 t"
    by (simp add: scan_inv_def)
  then show ?thesis
    by (simp add: refines_def outcome_at_def manifest_at_def extends_refl
        c1 c2 c3 c4 c5 c6 c7 c8 c9 c10 c11 c12 c13 cc)
qed

lemma h_scanWorkflow_refines:
  assumes ok: "input_ok s0 w"
  shows "refines s0 (scanWorkflow (abs_workflow s0 w)) (h_scanWorkflow w s0)"
  unfolding scanWorkflow_def h_scanWorkflow_def
  apply (rule refines_extractCustomNodes [OF scan_inv_start [OF ok]])
  apply (rule refines_extractModels, assumption)
  apply (rule refines_extractModelsFromProperties, assumption)
  apply (rule refines_mergeArrays, assumption, simp)
  apply (rule refines_extractModels, assumption)
  apply (rule refines_extractModels, assumption)
  apply (rule refines_extractModels, assumption)
  apply (rule refines_mergeArrays, assumption, simp)
  apply (rule refines_extractModels, assumption)
  apply (rule refines_extractModels, assumption)
  apply (rule refines_mergeArrays, assumption, simp)
  apply (rule refines_extractModels, assumption)
  apply (rule refines_extractModels, assumption)
  apply (rule refines_extractModels, assumption)
  apply (rule refines_extractModels, assumption)
  apply (rule refines_mergeArrays, assumption, simp)
  apply (rule refines_extractModels, assumption)
  apply (rule refines_extractModelsFromProperties, assumption)
  apply (rule refines_extractModels, assumption)
  apply (rule refines_extractModels, assumption)
  apply (rule refines_extractModels, assumption)
  apply (rule refines_extractModels, assumption)
  apply (rule refines_mergeArrays, assumption, simp)
  apply (rule refines_extractModels, assumption)
  apply (rule refines_extractModels, assumption)
  apply (rule refines_extractModels, assumption)
  apply (rule refines_extractModels, assumption)
  apply (rule refines_return, assumption, simp_all)
  done

lemma h_scanWorkflow_correct:
  assumes ok: "input_ok s0 w" and run: "h_scanWorkflow w s0 = (r, t)"
  shows "extends s0 t \<and> scanWorkflow (abs_workflow s0 w) = outcome_at t r
    \<and> (\<forall>u. extends t u \<longrightarrow> outcome_at u r = outcome_at t r)"
  using h_scanWorkflow_refines [OF ok] run by (simp add: refines_def)

lemma example_input_ok: "input_ok example_store example_workflow"
  by code_simp

lemma example_pure:
  "scanWorkflow (abs_workflow example_store example_workflow) = Inr example_manifest"
  by code_simp

text \<open>
  Two runs on the example store. \<open>extractModels\<close> allocates four arrays and returns the
  last; the names pushed by \<open>extractModelsFromProperties\<close> come out of the array it
  returns.
\<close>

lemma example_extractModels_run:
  "h_extractModels example_workflow ''CheckpointLoader'' 0 example_store
     = (Inr 7, example_store @
         [[ENode \<lparr> h_type = Some ''CheckpointLoader'', h_widgets_values = Some 0,
                  h_properties = None \<rparr>],
          [EStr ''b.safetensors''], [EStr ''b.safetensors''], [EStr ''b.safetensors'']])"
  by code_simp

lemma example_extractModelsFromProperties_run:
  "strings_at
     (snd (h_extractModelsFromProperties example_workflow ''VAELoader'' ''vae'' example_store))
     (fst (h_extractModelsFromProperties example_workflow ''VAELoader'' ''vae'' example_store))
   = [''v2.safetensors'']"
  by code_simp

text \<open>Two runs on the store whose graph makes \<open>String\<close> throw.\<close>

lemma throwing_input_ok: "input_ok throwing_store throwing_workflow"
  by code_simp

lemma throwing_first_run:
  "h_scanWorkflow throwing_workflow throwing_store = (Inl TypeError, throwing_first)"
  by code_simp

lemma throwing_second_run:
  "h_scanWorkflow throwing_workflow throwing_first = (Inl TypeError, throwing_second)"
  by code_simp

subsection \<open>Determinism, no mutation of the input, no retained state\<close>

text \<open>
  C8. Take a store \<open>s\<close> that holds a workflow graph, call \<open>scanWorkflow\<close> on it, and
  call it again on the store the first call leaves. Both stores differ from the one
  before by new arrays only, so no array of the input (nor any other array that
  existed) is changed and the graph reads the same after both calls. The outcome of
  the first call, the manifest it returns or the error it throws, is the one
  \<open>scanWorkflow\<close> computes from the graph alone, whatever else the store holds; the
  second call has the same outcome; and the manifest of the first call still reads the
  same after the second. Serialisation is a function of the manifest value and is not
  modelled.
\<close>

theorem h_scanWorkflow_repeatable:
  assumes ok: "input_ok s w"
    and first: "h_scanWorkflow w s = (r1, s1)"
    and second: "h_scanWorkflow w s1 = (r2, s2)"
  shows "extends s s1 \<and> extends s1 s2
    \<and> abs_workflow s2 w = abs_workflow s w
    \<and> scanWorkflow (abs_workflow s w) = outcome_at s1 r1
    \<and> outcome_at s2 r2 = outcome_at s1 r1
    \<and> outcome_at s2 r1 = outcome_at s1 r1"
proof -
  from h_scanWorkflow_correct [OF ok first]
  have e1: "extends s s1" and m1: "scanWorkflow (abs_workflow s w) = outcome_at s1 r1"
    and st: "\<And>u. extends s1 u \<Longrightarrow> outcome_at u r1 = outcome_at s1 r1"
    by simp_all
  from input_ok_extends [OF ok e1]
  have ok1: "input_ok s1 w" and a1: "abs_workflow s1 w = abs_workflow s w"
    by simp_all
  from h_scanWorkflow_correct [OF ok1 second]
  have e2: "extends s1 s2" and m2: "scanWorkflow (abs_workflow s1 w) = outcome_at s2 r2"
    by simp_all
  from input_ok_extends [OF ok1 e2] a1 have a2: "abs_workflow s2 w = abs_workflow s w"
    by simp
  from m1 m2 a1 have "outcome_at s2 r2 = outcome_at s1 r1" by simp
  with e1 e2 a2 m1 st [OF e2] show ?thesis by simp
qed

theorem h_scanWorkflow_repeatable_witness:
  "input_ok example_store example_workflow
   \<and> h_scanWorkflow example_workflow example_store = first_call
   \<and> h_scanWorkflow example_workflow (snd first_call) = second_call
   \<and> extends example_store (snd first_call)
   \<and> extends (snd first_call) (snd second_call)
   \<and> outcome_at (snd first_call) (fst first_call) = Inr example_manifest
   \<and> outcome_at (snd second_call) (fst second_call) = Inr example_manifest
   \<and> outcome_at (snd second_call) (fst first_call) = Inr example_manifest
   \<and> input_ok throwing_store throwing_workflow
   \<and> h_scanWorkflow throwing_workflow throwing_store = (Inl TypeError, throwing_first)
   \<and> h_scanWorkflow throwing_workflow throwing_first = (Inl TypeError, throwing_second)
   \<and> extends throwing_store throwing_first
   \<and> extends throwing_first throwing_second
   \<and> abs_workflow throwing_second throwing_workflow
       = abs_workflow throwing_store throwing_workflow
   \<and> scanWorkflow (abs_workflow throwing_store throwing_workflow) = Inl TypeError"
proof -
  have f: "h_scanWorkflow example_workflow example_store = first_call"
    by (simp only: first_call_def)
  have s: "h_scanWorkflow example_workflow (snd first_call) = second_call"
    by (simp only: second_call_def)
  have f': "h_scanWorkflow example_workflow example_store = (fst first_call, snd first_call)"
    by (simp only: f prod.collapse)
  have s': "h_scanWorkflow example_workflow (snd first_call)
      = (fst second_call, snd second_call)"
    by (simp only: s prod.collapse)
  note t = h_scanWorkflow_repeatable [OF throwing_input_ok throwing_first_run
      throwing_second_run]
  from h_scanWorkflow_repeatable [OF example_input_ok f' s'] example_pure example_input_ok f s
    t throwing_input_ok throwing_first_run throwing_second_run
  show ?thesis by (simp add: outcome_at_def)
qed

end
